theory Spec2Isabelle
  imports Complex_Main
begin

section \<open>Values, buttons and the application object\<close>

text \<open>
  The embedding follows \<open>src/lookup.js\<close> (functions \<open>lookup\<close> and \<open>expand\<close>) and the types of
  \<open>types.ts\<close>. JavaScript strings are modelled as HOL strings: a \<open>char\<close> stands for a code
  unit in the range U+0000 to U+00FF. Objects read from JSON are association lists read with
  \<open>map_of\<close>; only their own properties are modelled. (A key that names a property of
  \<open>Object.prototype\<close>, such as \<open>constructor\<close> or \<open>toString\<close>, reads that inherited property in
  JavaScript when the object has no such key of its own; the model takes the key for absent
  and so does not cover these names.) \<open>null\<close> and \<open>undefined\<close> are one value, \<open>VNull\<close>: the
  code tells them apart nowhere (\<open>??\<close>, \<open>typeof\<close> and \<open>&&\<close> treat them alike).
\<close>

abbreviation BSL :: char where "BSL \<equiv> CHR 0x5C"
abbreviation DQ :: char where "DQ \<equiv> CHR 0x22"

text \<open>
  The numbers that reach \<open>lookup\<close> as a \<open>setKey\<close> are the values of \<open>Number(mKey)\<close> for a key of
  word characters: a non-negative integer that is a double, or \<open>Infinity\<close>.
\<close>

datatype jsnum = Fin nat | PInf

datatype jskey = KNum jsnum | KStr string

record http_call_request =
  req_method :: string
  req_url :: string
  req_headers :: "(string \<times> string) list option"
  req_body :: "string option"

record argument_schema =
  arg_key :: string
  arg_info :: string
  arg_values :: "string list option"

datatype jsval =
    VNull
  | VStr string
  | VNum real
  | VBool bool
  | VRequest http_call_request
  | VArguments "argument_schema list"
  | VSet "(string \<times> string) list"
  | VSetList "string list"

text \<open>
  \<open>PanelButton\<close> of \<open>types.ts\<close>. The fields carry the prefix \<open>btn_\<close> (\<open>is\<close>, \<open>set\<close> and
  \<open>text\<close> are taken in Isabelle); an optional field that is absent is \<open>None\<close>.
\<close>

record panel_button =
  btn_text :: string
  btn_is :: "string option"
  btn_set :: "(string \<times> string) list option"
  btn_setList :: "string list option"
  btn_arguments :: "argument_schema list option"
  btn_repeat :: "real option"
  btn_repeatInitial :: "real option"
  btn_column :: "real option"
  btn_showOutput :: "bool option"
  btn_request :: "http_call_request option"
  btn_proxyUrl :: "string option"
  btn_command :: "string option"
  btn_commandUrl :: "string option"
  btn_isPersisted :: "bool option"

text \<open>The property names, \<open>keyof PanelButton\<close>.\<close>

datatype propkey =
    P_text | P_is | P_set | P_setList | P_arguments | P_repeat | P_repeatInitial
  | P_column | P_showOutput | P_request | P_proxyUrl | P_command | P_commandUrl
  | P_isPersisted

text \<open>\<open>button[key]\<close>: \<open>None\<close> is \<open>undefined\<close>.\<close>

fun get_prop :: "panel_button \<Rightarrow> propkey \<Rightarrow> jsval option" where
  "get_prop b P_text = Some (VStr (btn_text b))"
| "get_prop b P_is = map_option VStr (btn_is b)"
| "get_prop b P_set = map_option VSet (btn_set b)"
| "get_prop b P_setList = map_option VSetList (btn_setList b)"
| "get_prop b P_arguments = map_option VArguments (btn_arguments b)"
| "get_prop b P_repeat = map_option VNum (btn_repeat b)"
| "get_prop b P_repeatInitial = map_option VNum (btn_repeatInitial b)"
| "get_prop b P_column = map_option VNum (btn_column b)"
| "get_prop b P_showOutput = map_option VBool (btn_showOutput b)"
| "get_prop b P_request = map_option VRequest (btn_request b)"
| "get_prop b P_proxyUrl = map_option VStr (btn_proxyUrl b)"
| "get_prop b P_command = map_option VStr (btn_command b)"
| "get_prop b P_commandUrl = map_option VStr (btn_commandUrl b)"
| "get_prop b P_isPersisted = map_option VBool (btn_isPersisted b)"

text \<open>
  Of the application object \<open>lookup\<close> reads \<open>app.config.templates\<close> (optional in
  \<open>PanelConfig\<close>) and \<open>app.setGlobals\<close>. The type \<open>ClientApp\<close> of \<open>types.ts\<close> declares no
  \<open>setGlobals\<close>, the object built in \<open>index.js\<close> and the shim \<open>makeApp\<close> of the tests have
  none: there the property reads as \<open>undefined\<close>, which is \<open>None\<close> here.
\<close>

record client_app =
  templates :: "(string \<times> panel_button) list option"
  setGlobals :: "(string \<times> string) list option"

text \<open>
  What the code can throw: a \<open>TypeError\<close> (a property read on \<open>undefined\<close>), and the
  exhaustion of the call stack, which is how a recursion that does not end shows.
  \<open>NotText\<close> marks the one place where the model stops: a token replaced by a value that is
  neither a string nor \<open>null\<close>, which no lookup of a \<open>set\<close> key yields.
\<close>

datatype error = TypeError | StackOverflow | NotText

section \<open>The built-in functions the code calls\<close>

subsection \<open>Word characters and \<open>Number\<close>\<close>

text \<open>\<open>\w\<close> of a regular expression without the unicode flag: letters, digits, underscore.\<close>

definition word_char :: "char \<Rightarrow> bool" where
  "word_char c =
     (let n = (of_char c :: nat)
      in (48 \<le> n \<and> n \<le> 57) \<or> (65 \<le> n \<and> n \<le> 90) \<or> n = 95 \<or> (97 \<le> n \<and> n \<le> 122))"

definition digit_of :: "nat \<Rightarrow> char \<Rightarrow> nat option" where
  "digit_of base c =
     (let n = (of_char c :: nat);
          d = (if 48 \<le> n \<and> n \<le> 57 then Some (n - 48)
               else if 97 \<le> n \<and> n \<le> 102 then Some (n - 87)
               else if 65 \<le> n \<and> n \<le> 70 then Some (n - 55)
               else None)
      in case d of None \<Rightarrow> None | Some v \<Rightarrow> if v < base then Some v else None)"

fun parse_digits :: "nat \<Rightarrow> nat \<Rightarrow> string \<Rightarrow> nat option" where
  "parse_digits base acc [] = Some acc"
| "parse_digits base acc (c # cs) =
     (case digit_of base c of
        None \<Rightarrow> None
      | Some d \<Rightarrow> parse_digits base (acc * base + d) cs)"

definition parse_nat :: "nat \<Rightarrow> string \<Rightarrow> nat option" where
  "parse_nat base s = (if s = [] then None else parse_digits base 0 s)"

fun bitlen :: "nat \<Rightarrow> nat" where
  "bitlen n = (if n = 0 then 0 else Suc (bitlen (n div 2)))"

declare bitlen.simps [simp del]

text \<open>
  The double nearest to a natural number, ties to even; from \<open>2^1024\<close> on the result is
  \<open>Infinity\<close>. Below \<open>2^53\<close> every natural number is a double.
\<close>

definition round_double :: "nat \<Rightarrow> jsnum" where
  "round_double n =
     (if n < 2 ^ 53 then Fin n
      else let e = bitlen n - 53;
               q = n div 2 ^ e;
               r = n mod 2 ^ e;
               q' = (if 2 * r > 2 ^ e \<or> (2 * r = 2 ^ e \<and> odd q) then q + 1 else q);
               v = q' * 2 ^ e
           in if v < 2 ^ 1024 then Fin v else PInf)"

definition is_digit :: "char \<Rightarrow> bool" where
  "is_digit c = (48 \<le> (of_char c :: nat) \<and> (of_char c :: nat) \<le> 57)"

text \<open>
  \<open>Number(s)\<close> for a string of word characters; \<open>None\<close> is \<open>NaN\<close>. Such a string has no sign,
  no point and no blank, so the numeric literals left are \<open>Infinity\<close>, the prefixed
  hexadecimal, octal and binary integers, and decimal digits with an optional exponent.
\<close>

definition js_decimal :: "string \<Rightarrow> jsnum option" where
  "js_decimal s =
     (let m = takeWhile is_digit s; r = dropWhile is_digit s
      in case parse_nat 10 m of
           None \<Rightarrow> None
         | Some v \<Rightarrow>
             (case r of
                [] \<Rightarrow> Some (round_double v)
              | c # ex \<Rightarrow>
                  if c = CHR ''e'' \<or> c = CHR ''E''
                  then (case parse_nat 10 ex of
                          None \<Rightarrow> None
                        | Some x \<Rightarrow> Some (round_double (v * 10 ^ x)))
                  else None))"

definition js_Number :: "string \<Rightarrow> jsnum option" where
  "js_Number s =
     (if s = ''Infinity'' then Some PInf
      else case s of
             c0 # c1 # ds \<Rightarrow>
               if c0 = CHR ''0'' \<and> (c1 = CHR ''x'' \<or> c1 = CHR ''X'')
               then map_option round_double (parse_nat 16 ds)
               else if c0 = CHR ''0'' \<and> (c1 = CHR ''o'' \<or> c1 = CHR ''O'')
               then map_option round_double (parse_nat 8 ds)
               else if c0 = CHR ''0'' \<and> (c1 = CHR ''b'' \<or> c1 = CHR ''B'')
               then map_option round_double (parse_nat 2 ds)
               else js_decimal s
           | _ \<Rightarrow> js_decimal s)"

subsection \<open>A number as a property name\<close>

definition digit_char :: "nat \<Rightarrow> char" where
  "digit_char d = ''0123456789abcdef'' ! d"

fun show_nat :: "nat \<Rightarrow> string" where
  "show_nat n = (if n < 10 then [digit_char n] else show_nat (n div 10) @ [digit_char (n mod 10)])"

declare show_nat.simps [simp del]

text \<open>
  \<open>Number::toString\<close>. Below \<open>2^53\<close> the digits are those of the integer. Above, the digits
  are the fewest \<open>s\<close> (at most 17) such that \<open>s * 10^e\<close> is the number again; of two such
  \<open>s\<close> the nearer one, and the even one when both are as near. \<open>shortest_digits\<close> gives \<open>s\<close>
  and the number \<open>n\<close> of digits before the point. Up to \<open>n = 21\<close> the digits are filled with
  zeros, beyond the number is written with an exponent.
\<close>

definition exp_candidates :: "nat \<Rightarrow> nat \<Rightarrow> nat \<Rightarrow> nat list" where
  "exp_candidates x nd k =
     (let e = nd - k; lo = x div 10 ^ e
      in filter (\<lambda>s. s < 10 ^ k \<and> round_double (s * 10 ^ e) = Fin x) [lo, lo + 1])"

definition exp_pick :: "nat \<Rightarrow> nat \<Rightarrow> nat list \<Rightarrow> nat" where
  "exp_pick x e ss =
     (case ss of
        [s] \<Rightarrow> s
      | [lo, hi] \<Rightarrow>
          if x - lo * 10 ^ e < hi * 10 ^ e - x then lo
          else if hi * 10 ^ e - x < x - lo * 10 ^ e then hi
          else if even lo then lo else hi
      | _ \<Rightarrow> x)"

definition shortest_digits :: "nat \<Rightarrow> nat \<times> nat" where
  "shortest_digits x =
     (let nd = length (show_nat x)
      in if round_double (10 ^ nd) = Fin x then (1, nd + 1)
         else case List.find (\<lambda>k. exp_candidates x nd k \<noteq> []) [1..<18] of
                Some k \<Rightarrow> (exp_pick x (nd - k) (exp_candidates x nd k), nd)
              | None \<Rightarrow> (x, nd))"

definition num_string :: "jsnum \<Rightarrow> string" where
  "num_string x =
     (case x of
        PInf \<Rightarrow> ''Infinity''
      | Fin v \<Rightarrow>
          if v < 2 ^ 53 then show_nat v
          else let (s, n) = shortest_digits v; ds = show_nat s
               in if n \<le> 21 then ds @ replicate (n - length ds) (CHR ''0'')
                  else take 1 ds @ (if length ds = 1 then [] else CHR ''.'' # drop 1 ds)
                         @ ''e+'' @ show_nat (n - 1))"

text \<open>The property name a key stands for, in \<open>app.setGlobals[setKey]\<close>.\<close>

fun key_string :: "jskey \<Rightarrow> string" where
  "key_string (KStr s) = s"
| "key_string (KNum x) = num_string x"

text \<open>\<open>setList[setKey]\<close> on an array read from JSON: the element, or \<open>undefined\<close>.\<close>

fun list_index :: "string list \<Rightarrow> jsnum \<Rightarrow> string option" where
  "list_index xs (Fin i) = (if i < length xs then Some (xs ! i) else None)"
| "list_index xs PInf = None"

subsection \<open>\<open>encodeURIComponent\<close> and \<open>JSON.stringify\<close> on a string\<close>

definition hex_upper :: "nat \<Rightarrow> char" where
  "hex_upper d = ''0123456789ABCDEF'' ! d"

definition percent :: "nat \<Rightarrow> string" where
  "percent b = [CHR ''%'', hex_upper (b div 16), hex_upper (b mod 16)]"

definition uri_unreserved :: "char \<Rightarrow> bool" where
  "uri_unreserved c =
     (word_char c \<or> c \<in> set [CHR ''-'', CHR ''.'', CHR ''!'', CHR ''~'', CHR ''*'',
                               CHR 0x27, CHR ''('', CHR '')''])"

text \<open>A code unit below U+0080 is one octet of UTF-8, one up to U+00FF is two.\<close>

definition encode_unit :: "char \<Rightarrow> string" where
  "encode_unit c =
     (let n = (of_char c :: nat)
      in if uri_unreserved c then [c]
         else if n < 128 then percent n
         else percent (192 + n div 64) @ percent (128 + n mod 64))"

definition encodeURIComponent :: "string \<Rightarrow> string" where
  "encodeURIComponent s = concat (map encode_unit s)"

definition json_unit :: "char \<Rightarrow> string" where
  "json_unit c =
     (let n = (of_char c :: nat)
      in if n = 8 then [BSL, CHR ''b'']
         else if n = 9 then [BSL, CHR ''t'']
         else if n = 10 then [BSL, CHR ''n'']
         else if n = 12 then [BSL, CHR ''f'']
         else if n = 13 then [BSL, CHR ''r'']
         else if c = DQ then [BSL, DQ]
         else if c = BSL then [BSL, BSL]
         else if n < 32 then [BSL, CHR ''u'', CHR ''0'', CHR ''0'',
                             digit_char (n div 16), digit_char (n mod 16)]
         else [c])"

definition JSON_stringify :: "string \<Rightarrow> string" where
  "JSON_stringify s = DQ # concat (map json_unit s) @ [DQ]"

section \<open>The token grammar\<close>

text \<open>
  \<open>getTokens = /\$(\\+)?\{((?:(\w+):)?(\w+))\}/g\<close>. A match starts at a dollar sign, takes
  every backslash that follows (the next character has to be the brace, so the greedy group
  cannot give one back), the brace, a run of word characters, and then either the closing
  brace or a colon, a second run and the closing brace. The groups are \<open>slash\<close>, \<open>mBody\<close>,
  \<open>mFn\<close> and \<open>mKey\<close>; an unmatched group (\<open>undefined\<close>) is the empty string for \<open>slash\<close> and
  \<open>None\<close> for \<open>mFn\<close>.
\<close>

record token =
  tk_match :: string
  tk_slash :: string
  tk_body :: string
  tk_fn :: "string option"
  tk_key :: string

definition token_body :: "string option \<Rightarrow> string \<Rightarrow> string" where
  "token_body fn k = (case fn of None \<Rightarrow> k | Some f \<Rightarrow> f @ CHR '':'' # k)"

definition mk_token :: "string \<Rightarrow> string option \<Rightarrow> string \<Rightarrow> token" where
  "mk_token slash fn k =
     \<lparr> tk_match = CHR ''$'' # slash @ CHR ''{'' # token_body fn k @ ''}'',
       tk_slash = slash, tk_body = token_body fn k, tk_fn = fn, tk_key = k \<rparr>"

text \<open>\<open>(\w+)\}\<close>: the key and the closing brace.\<close>

definition match_key :: "string \<Rightarrow> (string \<times> string) option" where
  "match_key r =
     (let w = takeWhile word_char r
      in if w = [] then None
         else (case dropWhile word_char r of
                 [] \<Rightarrow> None
               | c # rest \<Rightarrow> if c = CHR ''}'' then Some (w, rest) else None))"

text \<open>\<open>((?:(\w+):)?(\w+))\}\<close>: what follows the opening brace.\<close>

definition match_body :: "string \<Rightarrow> (string option \<times> string \<times> string) option" where
  "match_body r =
     (let w1 = takeWhile word_char r
      in if w1 = [] then None
         else (case dropWhile word_char r of
                 [] \<Rightarrow> None
               | c # r' \<Rightarrow>
                   if c = CHR ''}'' then Some (None, w1, r')
                   else if c = CHR '':''
                   then (case match_key r' of
                           None \<Rightarrow> None
                         | Some (w2, rest) \<Rightarrow> Some (Some w1, w2, rest))
                   else None))"

text \<open>A match at the start of \<open>s\<close>, and what is left of \<open>s\<close> after it.\<close>

definition match_token :: "string \<Rightarrow> (token \<times> string) option" where
  "match_token s =
     (case s of
        [] \<Rightarrow> None
      | c # r \<Rightarrow>
          if c \<noteq> CHR ''$'' then None
          else (case dropWhile (\<lambda>x. x = BSL) r of
                  [] \<Rightarrow> None
                | c1 # r2 \<Rightarrow>
                    if c1 \<noteq> CHR ''{'' then None
                    else (case match_body r2 of
                            None \<Rightarrow> None
                          | Some (fn, k, rest) \<Rightarrow>
                              Some (mk_token (takeWhile (\<lambda>x. x = BSL) r) fn k, rest))))"

text \<open>
  \<open>replaceAll\<close> with a global pattern: the matches are found from left to right, each search
  resuming after the previous match; what lies between them is kept.
\<close>

datatype piece = Lit char | Tok token

function tokenize :: "string \<Rightarrow> piece list" where
  "tokenize [] = []"
| "tokenize (c # cs) =
     (case match_token (c # cs) of
        Some (t, rest) \<Rightarrow> Tok t # tokenize rest
      | None \<Rightarrow> Lit c # tokenize cs)"
  by pat_completeness auto
termination
proof (relation "measure length", goal_cases)
  case 1
  show ?case by simp
next
  case (2 c cs)
  show ?case by simp
next
  case (3 c cs found t rest)
  have d: "length ys < length xs" if "dropWhile P xs = y # ys" for P and xs ys :: string and y
  proof -
    have "length (dropWhile P xs) \<le> length xs" by (rule length_dropWhile_le)
    with that show ?thesis by simp
  qed
  from 3 have "match_token (c # cs) = Some (t, rest)" by simp
  then have "length rest < length (c # cs)"
    unfolding match_token_def match_body_def match_key_def Let_def
    by (auto split: list.splits if_splits option.splits dest!: d)
  then show ?case by simp
qed

section \<open>lookup and expand\<close>

text \<open>\<open>a ?? b\<close>: the right operand counts only when the left one is \<open>null\<close> or \<open>undefined\<close>.\<close>

definition coalesce :: "error + jsval \<Rightarrow> error + jsval \<Rightarrow> error + jsval" where
  "coalesce a b = (case a of Inl e \<Rightarrow> Inl e | Inr VNull \<Rightarrow> b | Inr v \<Rightarrow> Inr v)"

definition opt_str :: "string option \<Rightarrow> error + jsval" where
  "opt_str x = (case x of None \<Rightarrow> Inr VNull | Some s \<Rightarrow> Inr (VStr s))"

text \<open>
  \<open>button?.is ? (templates?.[button.is] ?? null) : null\<close>; the empty string is falsy, so a
  button whose \<open>is\<close> is empty has no parent.
\<close>

definition parent_of :: "client_app \<Rightarrow> panel_button option \<Rightarrow> panel_button option" where
  "parent_of app button =
     (case button of
        None \<Rightarrow> None
      | Some b \<Rightarrow>
          (case btn_is b of
             None \<Rightarrow> None
           | Some name \<Rightarrow>
               if name = [] then None
               else (case templates app of None \<Rightarrow> None | Some ts \<Rightarrow> map_of ts name)))"

text \<open>\<open>fromMap ? button.set?.[setKey] : null\<close> and \<open>fromList ? button.setList?.[setKey] : null\<close>.\<close>

fun own_set :: "panel_button \<Rightarrow> jskey \<Rightarrow> string option" where
  "own_set b (KStr s) = (case btn_set b of None \<Rightarrow> None | Some m \<Rightarrow> map_of m s)"
| "own_set b (KNum x) = None"

fun own_list :: "panel_button \<Rightarrow> jskey \<Rightarrow> string option" where
  "own_list b (KNum x) = (case btn_setList b of None \<Rightarrow> None | Some xs \<Rightarrow> list_index xs x)"
| "own_list b (KStr s) = None"

text \<open>\<open>app.setGlobals[setKey] ?? null\<close>: reading a property of \<open>undefined\<close> throws.\<close>

definition global_value :: "client_app \<Rightarrow> jskey \<Rightarrow> error + jsval" where
  "global_value app k =
     (case setGlobals app of
        None \<Rightarrow> Inl TypeError
      | Some g \<Rightarrow> opt_str (map_of g (key_string k)))"

text \<open>\<open>number(Number(mKey)) ?? string(mKey) ?? ''\<close>.\<close>

definition token_key :: "token \<Rightarrow> jskey" where
  "token_key t = (case js_Number (tk_key t) of Some x \<Rightarrow> KNum x | None \<Rightarrow> KStr (tk_key t))"

text \<open>
  The callback of \<open>replaceAll\<close>, for one match. \<open>looked\<close> is the result of
  \<open>lookup(app, button, null, key, false, seen)\<close>, made between \<open>seen.add(key)\<close> and
  \<open>seen.delete(key)\<close>; it counts only where the code reaches that call.
\<close>

definition replace_token :: "token \<Rightarrow> jskey set \<Rightarrow> error + jsval \<Rightarrow> error + string" where
  "replace_token t seen looked =
     (if tk_slash t \<noteq> [] then Inr (CHR ''$'' # tl (tk_slash t) @ CHR ''{'' # tk_body t @ ''}'')
      else if token_key t \<in> seen then Inr (tk_match t)
      else case looked of
             Inl e \<Rightarrow> Inl e
           | Inr VNull \<Rightarrow> Inr (tk_match t)
           | Inr (VStr v) \<Rightarrow>
               if v \<noteq> [] \<and> tk_fn t = Some ''urlencode'' then Inr (encodeURIComponent v)
               else if v \<noteq> [] \<and> tk_fn t = Some ''jsonString'' then Inr (JSON_stringify v)
               else Inr v
           | Inr _ \<Rightarrow> Inl NotText)"

text \<open>The replacements in order; the first exception ends the call.\<close>

fun concatE :: "(error + string) list \<Rightarrow> error + string" where
  "concatE [] = Inr []"
| "concatE (Inl e # rs) = Inl e"
| "concatE (Inr s # rs) = (case concatE rs of Inl e \<Rightarrow> Inl e | Inr t \<Rightarrow> Inr (s @ t))"

text \<open>
  The two functions call each other; the first argument bounds the depth of the calls, and
  \<open>StackOverflow\<close> is the result when it does not suffice. \<open>seen\<close> is a set that \<open>expand\<close>
  changes in place: a key is added before the nested \<open>lookup\<close> and deleted after it, and only
  a key that was not in the set is added, so the set is the same again when the nested call
  has returned. The model hands the enlarged set to the nested call and keeps its own;
  \<open>lookup_st\<close> and \<open>expand_st\<close> below change the set as the code does, and
  \<open>st_agrees\<close> shows that they give the same results.
\<close>

fun lookup :: "nat \<Rightarrow> client_app \<Rightarrow> panel_button option \<Rightarrow> propkey option \<Rightarrow> jskey option
                 \<Rightarrow> bool \<Rightarrow> jskey set option \<Rightarrow> error + jsval"
and expand :: "nat \<Rightarrow> client_app \<Rightarrow> panel_button option \<Rightarrow> string \<Rightarrow> jskey set
                 \<Rightarrow> error + string"
where
  "lookup 0 app button key setKey isLookup seen = Inl StackOverflow"
| "lookup (Suc n) app button key setKey isLookup seen =
     (let parent = parent_of app button;
          result =
            (case (button, key, setKey) of
               (Some b, Some p, None) \<Rightarrow>
                 (case get_prop b p of
                    Some v \<Rightarrow> Inr v
                  | None \<Rightarrow> lookup n app parent key None True seen)
             | (Some b, None, Some k) \<Rightarrow>
                 coalesce
                   (coalesce
                      (coalesce (opt_str (own_set b k)) (opt_str (own_list b k)))
                      (lookup n app parent None setKey True seen))
                   (global_value app k)
             | _ \<Rightarrow> Inr VNull)
      in case result of
           Inr (VStr s) \<Rightarrow>
             if isLookup then Inr (VStr s)
             else (case expand n app button s
                          (case seen of
                             Some sn \<Rightarrow> sn
                           | None \<Rightarrow> {case setKey of Some k \<Rightarrow> k | None \<Rightarrow> KStr []})
                   of Inl e \<Rightarrow> Inl e | Inr s' \<Rightarrow> Inr (VStr s'))
         | r \<Rightarrow> r)"
| "expand 0 app button text seen = Inl StackOverflow"
| "expand (Suc n) app button text seen =
     concatE
       (map (\<lambda>p. case p of
                   Lit c \<Rightarrow> Inr [c]
                 | Tok t \<Rightarrow>
                     replace_token t seen
                       (lookup n app button None (Some (token_key t)) False
                          (Some (insert (token_key t) seen))))
          (tokenize text))"

section \<open>Notions of the specification and inputs of the tests\<close>

text \<open>One piece of the text, as \<open>expand\<close> replaces it.\<close>

definition expand_piece :: "nat \<Rightarrow> client_app \<Rightarrow> panel_button option \<Rightarrow> jskey set \<Rightarrow> piece
                              \<Rightarrow> error + string" where
  "expand_piece n app button seen p =
     (case p of
        Lit c \<Rightarrow> Inr [c]
      | Tok t \<Rightarrow>
          replace_token t seen
            (lookup n app button None (Some (token_key t)) False
               (Some (insert (token_key t) seen))))"

text \<open>The last step of \<open>lookup\<close>: a string is expanded unless the call is internal.\<close>

definition finish :: "bool \<Rightarrow> (string \<Rightarrow> error + string) \<Rightarrow> error + jsval \<Rightarrow> error + jsval" where
  "finish isLookup ex result =
     (case result of
        Inr (VStr s) \<Rightarrow>
          if isLookup then Inr (VStr s)
          else (case ex s of Inl e \<Rightarrow> Inl e | Inr s' \<Rightarrow> Inr (VStr s'))
      | r \<Rightarrow> r)"

definition str_result :: "error + string \<Rightarrow> error + jsval" where
  "str_result r = (case r of Inl e \<Rightarrow> Inl e | Inr s \<Rightarrow> Inr (VStr s))"

text \<open>A result that is a string, \<open>null\<close>, or an exception of the code.\<close>

definition is_text :: "error + jsval \<Rightarrow> bool" where
  "is_text r =
     (case r of
        Inr VNull \<Rightarrow> True
      | Inr (VStr s) \<Rightarrow> True
      | Inl e \<Rightarrow> e \<noteq> NotText
      | _ \<Rightarrow> False)"

text \<open>A non-empty run of word characters: what \<open>\w+\<close> matches.\<close>

definition word :: "string \<Rightarrow> bool" where
  "word s = (s \<noteq> [] \<and> list_all word_char s)"

text \<open>The text a piece stands for.\<close>

fun piece_text :: "piece \<Rightarrow> string" where
  "piece_text (Lit c) = [c]"
| "piece_text (Tok t) = tk_match t"

text \<open>The text of a token escaped \<open>m\<close> times: \<open>m\<close> backslashes between dollar and brace.\<close>

definition escaped_token :: "nat \<Rightarrow> string option \<Rightarrow> string \<Rightarrow> string" where
  "escaped_token m fn k = CHR ''$'' # replicate m BSL @ CHR ''{'' # token_body fn k @ ''}''"

text \<open>\<open>N\<close> expansion passes, each on the result of the one before.\<close>

fun expand_passes :: "nat \<Rightarrow> nat \<Rightarrow> client_app \<Rightarrow> panel_button option \<Rightarrow> jskey set \<Rightarrow> string
                        \<Rightarrow> error + string" where
  "expand_passes 0 fuel app button seen s = Inr s"
| "expand_passes (Suc N) fuel app button seen s =
     (case expand fuel app button s seen of
        Inl e \<Rightarrow> Inl e
      | Inr s' \<Rightarrow> expand_passes N fuel app button seen s')"

text \<open>The same configuration with every \<open>set\<close>, or every \<open>setList\<close>, taken away.\<close>

definition without_set :: "panel_button \<Rightarrow> panel_button" where
  "without_set b = b \<lparr> btn_set := None \<rparr>"

definition without_setList :: "panel_button \<Rightarrow> panel_button" where
  "without_setList b = b \<lparr> btn_setList := None \<rparr>"

definition map_templates :: "(panel_button \<Rightarrow> panel_button) \<Rightarrow> client_app \<Rightarrow> client_app" where
  "map_templates f app =
     app \<lparr> templates := map_option (map (\<lambda>(name, b). (name, f b))) (templates app) \<rparr>"

text \<open>
  The value \<open>result\<close> of \<open>lookup\<close>, given what the call on the parent returns, and the
  visited set of the expansion that follows.
\<close>

definition raw_result :: "client_app \<Rightarrow> panel_button option \<Rightarrow> propkey option \<Rightarrow> jskey option
                            \<Rightarrow> error + jsval \<Rightarrow> error + jsval" where
  "raw_result app button key setKey from_parent =
     (case (button, key, setKey) of
        (Some b, Some p, None) \<Rightarrow>
          (case get_prop b p of Some v \<Rightarrow> Inr v | None \<Rightarrow> from_parent)
      | (Some b, None, Some k) \<Rightarrow>
          coalesce
            (coalesce (coalesce (opt_str (own_set b k)) (opt_str (own_list b k))) from_parent)
            (global_value app k)
      | _ \<Rightarrow> Inr VNull)"

definition seen_or :: "jskey set option \<Rightarrow> jskey option \<Rightarrow> jskey set" where
  "seen_or seen setKey =
     (case seen of
        Some sn \<Rightarrow> sn
      | None \<Rightarrow> {case setKey of Some k \<Rightarrow> k | None \<Rightarrow> KStr []})"

text \<open>The \<open>is\<close> chain of a button ends within \<open>c\<close> buttons.\<close>

fun chain_ends :: "nat \<Rightarrow> client_app \<Rightarrow> panel_button option \<Rightarrow> bool" where
  "chain_ends c app None = True"
| "chain_ends 0 app (Some b) = False"
| "chain_ends (Suc c) app (Some b) = chain_ends c app (parent_of app (Some b))"

text \<open>
  The first value along the \<open>is\<close> chain: of a property, and of a key in \<open>set\<close> or
  \<open>setList\<close>.
\<close>

fun chain_prop :: "nat \<Rightarrow> client_app \<Rightarrow> panel_button option \<Rightarrow> propkey \<Rightarrow> jsval option" where
  "chain_prop c app None p = None"
| "chain_prop 0 app (Some b) p = None"
| "chain_prop (Suc c) app (Some b) p =
     (case get_prop b p of
        Some v \<Rightarrow> Some v
      | None \<Rightarrow> chain_prop c app (parent_of app (Some b)) p)"

fun chain_set :: "nat \<Rightarrow> client_app \<Rightarrow> panel_button option \<Rightarrow> jskey \<Rightarrow> string option" where
  "chain_set c app None k = None"
| "chain_set 0 app (Some b) k = None"
| "chain_set (Suc c) app (Some b) k =
     (case own_set b k of
        Some v \<Rightarrow> Some v
      | None \<Rightarrow>
          (case own_list b k of
             Some v \<Rightarrow> Some v
           | None \<Rightarrow> chain_set c app (parent_of app (Some b)) k))"

text \<open>A key that no button of the chain has, in \<open>set\<close> or in \<open>setList\<close>.\<close>

fun chain_absent :: "nat \<Rightarrow> client_app \<Rightarrow> panel_button option \<Rightarrow> jskey \<Rightarrow> bool" where
  "chain_absent c app None k = True"
| "chain_absent 0 app (Some b) k = True"
| "chain_absent (Suc c) app (Some b) k =
     (own_set b k = None \<and> own_list b k = None \<and> chain_absent c app (parent_of app (Some b)) k)"

text \<open>
  The strings a lookup of a key can find: the values of \<open>set\<close> and \<open>setList\<close> along the chain,
  and those of the global map. \<open>value_keys\<close> are the keys of the tokens in these strings.
\<close>

fun chain_values :: "nat \<Rightarrow> client_app \<Rightarrow> panel_button option \<Rightarrow> string list" where
  "chain_values c app None = []"
| "chain_values 0 app (Some b) = []"
| "chain_values (Suc c) app (Some b) =
     (case btn_set b of None \<Rightarrow> [] | Some m \<Rightarrow> map snd m)
     @ (case btn_setList b of None \<Rightarrow> [] | Some xs \<Rightarrow> xs)
     @ chain_values c app (parent_of app (Some b))"

definition global_values :: "client_app \<Rightarrow> string list" where
  "global_values app = (case setGlobals app of None \<Rightarrow> [] | Some g \<Rightarrow> map snd g)"

fun piece_keys :: "piece \<Rightarrow> jskey list" where
  "piece_keys (Lit c) = []"
| "piece_keys (Tok t) = [token_key t]"

definition text_keys :: "string \<Rightarrow> jskey list" where
  "text_keys s = concat (map piece_keys (tokenize s))"

definition value_keys :: "nat \<Rightarrow> client_app \<Rightarrow> panel_button option \<Rightarrow> jskey list" where
  "value_keys c app button = concat (map text_keys (chain_values c app button @ global_values app))"

text \<open>A result that is \<open>null\<close> or one of these strings.\<close>

definition known :: "nat \<Rightarrow> client_app \<Rightarrow> panel_button option \<Rightarrow> error + jsval \<Rightarrow> bool" where
  "known c app button r =
     (r = Inr VNull \<or> (\<exists>s \<in> set (chain_values c app button @ global_values app). r = Inr (VStr s)))"

text \<open>
  A depth of the stack that suffices for an expansion with at most \<open>m\<close> keys left to visit on a
  chain of \<open>c\<close> buttons, and one that suffices for any text.
\<close>

definition fuel_for :: "nat \<Rightarrow> nat \<Rightarrow> nat" where
  "fuel_for c m = c + 2 * m + 2"

definition expand_fuel :: "nat \<Rightarrow> client_app \<Rightarrow> panel_button option \<Rightarrow> nat" where
  "expand_fuel c app button = fuel_for c (length (value_keys c app button)) + 2"

text \<open>A button with its text only, and \<open>makeApp\<close> of \<open>test/lookup.test.js\<close>.\<close>

definition plain_button :: "string \<Rightarrow> panel_button" where
  "plain_button t =
     \<lparr> btn_text = t, btn_is = None, btn_set = None, btn_setList = None,
       btn_arguments = None, btn_repeat = None, btn_repeatInitial = None, btn_column = None,
       btn_showOutput = None, btn_request = None, btn_proxyUrl = None, btn_command = None,
       btn_commandUrl = None, btn_isPersisted = None \<rparr>"

definition makeApp :: "(string \<times> panel_button) list \<Rightarrow> client_app" where
  "makeApp ts = \<lparr> templates = Some ts, setGlobals = None \<rparr>"

text \<open>The same application with an empty global map.\<close>

definition makeApp_globals :: "(string \<times> panel_button) list \<Rightarrow> client_app" where
  "makeApp_globals ts = \<lparr> templates = Some ts, setGlobals = Some [] \<rparr>"

text \<open>The button of the test "should handle simple set and set-list lookup".\<close>

definition s1_button :: panel_button where
  "s1_button = (plain_button ''s1'')
     \<lparr> btn_set := Some [(''a'', ''s1-a'')], btn_setList := Some [''x'', ''y'', ''z''] \<rparr>"

text \<open>The button of the test "should perform simple expansions", and its \<open>proxyUrl\<close>.\<close>

definition main1_proxyUrl :: string where
  "main1_proxyUrl =
     ''hello ${z} ${0} ${a} ${4} $'' @ BSL # ''{z} $'' @ BSL # BSL # BSL # ''{0}''"

definition main1_button :: panel_button where
  "main1_button = (plain_button ''main1'')
     \<lparr> btn_proxyUrl := Some main1_proxyUrl,
       btn_command := Some ''t: ${urlencode:y}'',
       btn_set := Some [(''z'', ''main1-z''), (''y'', ''s s''), (''x'', '':${y}:''),
                        (''i'', ''i: ${jsonString:j}''), (''j'', ''x'' @ DQ # ''y'')],
       btn_setList := Some [''main1-0'', '':${0}:''] \<rparr>"

text \<open>
  The templates and buttons of the tests "should handle inherited expansions" and "should
  prevent infinite recursion".
\<close>

definition inherit_templates :: "(string \<times> panel_button) list" where
  "inherit_templates =
     [(''a'', (plain_button ''a'')
         \<lparr> btn_is := Some ''b'', btn_set := Some [(''b'', ''[${y}]'')],
           btn_setList := Some [''a0'', ''a1:${2}''] \<rparr>),
      (''b'', (plain_button ''b'')
         \<lparr> btn_set := Some [(''c'', ''{${b}}''), (''d'', ''(${z})'')],
           btn_setList := Some [''b0'', ''b1'', ''b2:${z}''] \<rparr>)]"

definition inherit_button :: panel_button where
  "inherit_button = (plain_button ''main1'')
     \<lparr> btn_is := Some ''a'',
       btn_set := Some [(''x'', ''${y}-${b}-${c}-${d}''), (''y'', '':${z}:''), (''z'', ''!'')],
       btn_setList := Some [''${z}-${1}-${2}''] \<rparr>"

definition recursion_templates :: "(string \<times> panel_button) list" where
  "recursion_templates =
     [(''a'', (plain_button ''a'')
         \<lparr> btn_is := Some ''b'', btn_set := Some [(''a'', ''a${y}a''), (''aa'', ''aa${b}aa'')] \<rparr>),
      (''b'', (plain_button ''b'') \<lparr> btn_set := Some [(''b'', ''b${z}b'')] \<rparr>)]"

definition recursion_button :: panel_button where
  "recursion_button = (plain_button ''main1'')
     \<lparr> btn_is := Some ''a'', btn_proxyUrl := Some ''url:${z}'',
       btn_set := Some [(''x'', ''x${x}x''), (''y'', ''y${a}y''), (''z'', ''z${aa}z'')] \<rparr>"

text \<open>Inputs of the counterexamples and witnesses.\<close>

definition empty_a_button :: panel_button where
  "empty_a_button = (plain_button ''e'') \<lparr> btn_set := Some [(''a'', [])] \<rparr>"

definition quiet_button :: panel_button where
  "quiet_button = (plain_button ''quiet'') \<lparr> btn_is := Some ''T'', btn_showOutput := Some False \<rparr>"

definition loud_template :: panel_button where
  "loud_template = (plain_button ''loud'') \<lparr> btn_showOutput := Some True \<rparr>"

definition tpl_T :: panel_button where
  "tpl_T = (plain_button ''t'') \<lparr> btn_proxyUrl := Some ''${x}'', btn_set := Some [(''x'', ''t'')] \<rparr>"

definition btn_B :: panel_button where
  "btn_B = (plain_button ''b'') \<lparr> btn_is := Some ''T'', btn_set := Some [(''x'', ''b'')] \<rparr>"

definition self_button :: panel_button where
  "self_button = (plain_button ''self'') \<lparr> btn_set := Some [(''x'', ''x${x}x'')] \<rparr>"

definition ex_T :: panel_button where
  "ex_T = (plain_button ''T'') \<lparr> btn_set := Some [(''a'', ''y''), (''b'', ''z'')] \<rparr>"

definition ex_B :: panel_button where
  "ex_B = (plain_button ''B'') \<lparr> btn_is := Some ''T'', btn_set := Some [(''a'', ''x'')] \<rparr>"

definition zero_button :: panel_button where
  "zero_button = (plain_button ''zero'')
     \<lparr> btn_set := Some [(''0'', ''from set'')], btn_setList := Some [''from setList''] \<rparr>"

definition prefixed_zero_button :: panel_button where
  "prefixed_zero_button = (plain_button ''zero'')
     \<lparr> btn_set := Some [(''0'', ''from set''), (''urlencode:0'', ''from set too'')],
       btn_setList := Some [''from setList''] \<rparr>"


subsection \<open>The visited set as the code changes it\<close>

text \<open>
  A second translation of the two functions, in which the set \<open>seen\<close> is a state: every call
  returns the set as it leaves it, \<open>expand\<close> adds the key before the nested \<open>lookup\<close> and
  deletes it from the set that call leaves, and the replacements of one text run in order on
  the set the one before left. A \<open>lookup\<close> called without a set makes its own for the
  expansion, and its caller still has none.
\<close>

type_synonym 'a st_result = "error + ('a \<times> jskey set option)"

definition with_seen :: "jskey set option \<Rightarrow> error + 'a \<Rightarrow> 'a st_result" where
  "with_seen seen r = (case r of Inl e \<Rightarrow> Inl e | Inr v \<Rightarrow> Inr (v, seen))"

definition coalesce_st :: "jsval st_result \<Rightarrow> (jskey set option \<Rightarrow> jsval st_result) \<Rightarrow> jsval st_result" where
  "coalesce_st a b =
     (case a of
        Inl e \<Rightarrow> Inl e
      | Inr (v, seen) \<Rightarrow> if v = VNull then b seen else Inr (v, seen))"

definition finish_st :: "bool \<Rightarrow> (string \<Rightarrow> jskey set option \<Rightarrow> jsval st_result) \<Rightarrow> jsval st_result
                           \<Rightarrow> jsval st_result" where
  "finish_st isLookup ex result =
     (case result of
        Inl e \<Rightarrow> Inl e
      | Inr (v, seen) \<Rightarrow>
          (case v of
             VStr s \<Rightarrow> if isLookup then Inr (v, seen) else ex s seen
           | _ \<Rightarrow> Inr (v, seen)))"

definition and_then :: "string \<Rightarrow> error + (string \<times> jskey set) \<Rightarrow> error + (string \<times> jskey set)" where
  "and_then r rest = (case rest of Inl e \<Rightarrow> Inl e | Inr (rs, sn) \<Rightarrow> Inr (r @ rs, sn))"

definition str_st :: "(jskey set \<Rightarrow> jskey set option) \<Rightarrow> error + (string \<times> jskey set) \<Rightarrow> jsval st_result" where
  "str_st f r = (case r of Inl e \<Rightarrow> Inl e | Inr (s, sn) \<Rightarrow> Inr (VStr s, f sn))"

fun lookup_st :: "nat \<Rightarrow> client_app \<Rightarrow> panel_button option \<Rightarrow> propkey option \<Rightarrow> jskey option
                    \<Rightarrow> bool \<Rightarrow> jskey set option \<Rightarrow> jsval st_result"
and expand_st :: "nat \<Rightarrow> client_app \<Rightarrow> panel_button option \<Rightarrow> string \<Rightarrow> jskey set
                    \<Rightarrow> error + (string \<times> jskey set)"
and replace_st :: "nat \<Rightarrow> client_app \<Rightarrow> panel_button option \<Rightarrow> piece list \<Rightarrow> jskey set
                    \<Rightarrow> error + (string \<times> jskey set)"
where
  "lookup_st 0 app button key setKey isLookup seen = Inl StackOverflow"
| "lookup_st (Suc n) app button key setKey isLookup seen =
     finish_st isLookup
       (\<lambda>s seen1. case seen1 of
                     Some sn \<Rightarrow> str_st Some (expand_st n app button s sn)
                   | None \<Rightarrow>
                       str_st (\<lambda>sn. None)
                         (expand_st n app button s
                            {case setKey of Some k \<Rightarrow> k | None \<Rightarrow> KStr []}))
       (case (button, key, setKey) of
          (Some b, Some p, None) \<Rightarrow>
            (case get_prop b p of
               Some v \<Rightarrow> Inr (v, seen)
             | None \<Rightarrow> lookup_st n app (parent_of app button) key None True seen)
        | (Some b, None, Some k) \<Rightarrow>
            coalesce_st
              (coalesce_st
                 (with_seen seen (coalesce (opt_str (own_set b k)) (opt_str (own_list b k))))
                 (\<lambda>seen1. lookup_st n app (parent_of app button) None setKey True seen1))
              (\<lambda>seen1. with_seen seen1 (global_value app k))
        | _ \<Rightarrow> Inr (VNull, seen))"
| "expand_st 0 app button text seen = Inl StackOverflow"
| "expand_st (Suc n) app button text seen = replace_st n app button (tokenize text) seen"
| "replace_st n app button [] seen = Inr ([], seen)"
| "replace_st n app button (Lit c # ps) seen = and_then [c] (replace_st n app button ps seen)"
| "replace_st n app button (Tok t # ps) seen =
     (if tk_slash t \<noteq> []
      then and_then (CHR ''$'' # tl (tk_slash t) @ CHR ''{'' # tk_body t @ ''}'')
             (replace_st n app button ps seen)
      else if token_key t \<in> seen
      then and_then (tk_match t) (replace_st n app button ps seen)
      else (case lookup_st n app button None (Some (token_key t)) False
                   (Some (insert (token_key t) seen)) of
              Inl e \<Rightarrow> Inl e
            | Inr found \<Rightarrow>
                (case replace_token t seen (Inr (fst found)) of
                   Inl e \<Rightarrow> Inl e
                 | Inr r \<Rightarrow>
                     and_then r
                       (replace_st n app button ps
                          ((case snd found of Some sn \<Rightarrow> sn | None \<Rightarrow> {}) - {token_key t})))))"


text \<open>A result of the first translation, with the set unchanged.\<close>

definition keep :: "jskey set \<Rightarrow> error + string \<Rightarrow> error + (string \<times> jskey set)" where
  "keep sn r = (case r of Inl e \<Rightarrow> Inl e | Inr s \<Rightarrow> Inr (s, sn))"

section \<open>Lemmas\<close>

lemmas model_defs = parent_of_def coalesce_def opt_str_def global_value_def replace_token_def
  token_key_def match_token_def match_body_def match_key_def mk_token_def token_body_def
  word_char_def Let_def js_Number_def js_decimal_def parse_nat_def is_digit_def digit_of_def
  round_double_def

lemmas builtin_defs = encodeURIComponent_def encode_unit_def uri_unreserved_def percent_def
  hex_upper_def JSON_stringify_def json_unit_def digit_char_def

lemmas fixture_defs = plain_button_def makeApp_def makeApp_globals_def

subsection \<open>The shape of a \<open>set\<close> lookup\<close>

lemma expand_Suc:
  "expand (Suc n) app button str seen
     = concatE (map (expand_piece n app button seen) (tokenize str))"
  unfolding expand_piece_def by simp

lemma lookup_set_Suc:
  "lookup (Suc n) app (Some b) None (Some k) isLookup seen =
     finish isLookup
       (\<lambda>s. expand n app (Some b) s (case seen of Some sn \<Rightarrow> sn | None \<Rightarrow> {k}))
       (coalesce
          (coalesce
             (coalesce (opt_str (own_set b k)) (opt_str (own_list b k)))
             (lookup n app (parent_of app (Some b)) None (Some k) True seen))
          (global_value app k))"
  by (cases seen) (simp_all add: finish_def Let_def split: sum.splits jsval.splits)

lemma is_text_simps [simp]:
  "is_text (Inr VNull)" "is_text (Inr (VStr s))" "is_text (Inl StackOverflow)"
  "is_text (Inl TypeError)" "\<not> is_text (Inl NotText)"
  by (simp_all add: is_text_def)

lemma is_text_coalesce: "is_text a \<Longrightarrow> is_text b \<Longrightarrow> is_text (coalesce a b)"
  by (cases a; cases b) (auto simp add: is_text_def coalesce_def split: jsval.splits)

lemma is_text_opt_str [simp]: "is_text (opt_str x)"
  by (cases x) (simp_all add: opt_str_def)

lemma is_text_global [simp]: "is_text (global_value app k)"
  by (cases "setGlobals app") (simp_all add: global_value_def)

lemma is_text_finish:
  "is_text r \<Longrightarrow> (\<And>s. ex s \<noteq> Inl NotText) \<Longrightarrow> is_text (finish isLookup ex r)"
  by (cases r) (auto simp add: is_text_def finish_def split: jsval.splits sum.splits)

lemma concatE_error: "concatE rs = Inl e \<Longrightarrow> Inl e \<in> set rs"
  by (induction rs rule: concatE.induct) (auto split: sum.splits)

lemma replace_token_text: "is_text looked \<Longrightarrow> replace_token t sn looked \<noteq> Inl NotText"
  by (cases looked) (auto simp add: replace_token_def is_text_def split: jsval.splits)

lemma expand_Suc_error:
  assumes "expand (Suc n) app button str sn = Inl e"
  shows "\<exists>t. replace_token t sn
                (lookup n app button None (Some (token_key t)) False
                   (Some (insert (token_key t) sn)))
              = Inl e"
proof -
  from assms have "Inl e \<in> set (map (expand_piece n app button sn) (tokenize str))"
    unfolding expand_Suc by (rule concatE_error)
  then show ?thesis by (auto simp add: expand_piece_def split: piece.splits)
qed

text \<open>
  A lookup of a \<open>set\<close> key yields a string or \<open>null\<close>, so the branch \<open>NotText\<close> of the model is
  never taken: neither function returns it.
\<close>

lemma lookup_expand_text:
  "is_text (lookup n app button None (Some k) isLookup seen)
   \<and> expand n app button str sn \<noteq> Inl NotText"
proof (induction n arbitrary: button k isLookup seen str sn)
  case 0
  show ?case by simp
next
  case (Suc n)
  have l: "is_text (lookup (Suc n) app button None (Some k) isLookup seen)"
  proof (cases button)
    case None
    then show ?thesis by simp
  next
    case (Some b)
    have "is_text (lookup n app (parent_of app (Some b)) None (Some k) True seen)"
      using Suc.IH by blast
    moreover have "\<And>s sn. expand n app (Some b) s sn \<noteq> Inl NotText"
      using Suc.IH by blast
    ultimately show ?thesis
      unfolding Some lookup_set_Suc
      by (intro is_text_finish is_text_coalesce) simp_all
  qed
  have e: "expand (Suc n) app button str sn \<noteq> Inl NotText"
  proof
    assume "expand (Suc n) app button str sn = Inl NotText"
    then obtain t where
      "replace_token t sn
         (lookup n app button None (Some (token_key t)) False (Some (insert (token_key t) sn)))
       = Inl NotText"
      using expand_Suc_error by blast
    moreover have "is_text (lookup n app button None (Some (token_key t)) False
                              (Some (insert (token_key t) sn)))"
      using Suc.IH by blast
    ultimately show False using replace_token_text by blast
  qed
  from l e show ?case by simp
qed

subsection \<open>Matching one token\<close>

lemma takeWhile_run:
  assumes "list_all P xs" and "\<not> P c"
  shows "takeWhile P (xs @ c # ys) = xs" and "dropWhile P (xs @ c # ys) = c # ys"
  using assms by (induction xs) auto

lemma not_word_char [simp]:
  "\<not> word_char (CHR ''}'')" "\<not> word_char (CHR '':'')" "\<not> word_char (CHR ''{'')"
  "\<not> word_char (CHR ''$'')" "\<not> word_char BSL"
  by (simp_all add: word_char_def)

lemma slash_run:
  "takeWhile (\<lambda>x. x = BSL) (replicate m BSL @ CHR ''{'' # zs) = replicate m BSL"
  "dropWhile (\<lambda>x. x = BSL) (replicate m BSL @ CHR ''{'' # zs) = CHR ''{'' # zs"
  by (induction m) auto

lemma match_token_exact:
  assumes "word k" and "case fn of None \<Rightarrow> True | Some f \<Rightarrow> word f"
  shows "match_token (escaped_token m fn k @ rest) = Some (mk_token (replicate m BSL) fn k, rest)"
proof (cases fn)
  case None
  with assms show ?thesis
    by (simp add: escaped_token_def match_token_def match_body_def match_key_def token_body_def
        word_def takeWhile_run slash_run Let_def)
next
  case (Some f)
  with assms show ?thesis
    by (simp add: escaped_token_def match_token_def match_body_def match_key_def token_body_def
        word_def takeWhile_run slash_run Let_def)
qed

lemma tokenize_token:
  assumes "word k" and "case fn of None \<Rightarrow> True | Some f \<Rightarrow> word f"
  shows "tokenize (escaped_token m fn k) = [Tok (mk_token (replicate m BSL) fn k)]"
proof -
  have "match_token (escaped_token m fn k) = Some (mk_token (replicate m BSL) fn k, [])"
    using match_token_exact [OF assms, of m "[]"] by simp
  moreover have "escaped_token m fn k
                   = CHR ''$'' # replicate m BSL @ CHR ''{'' # token_body fn k @ ''}''"
    by (simp add: escaped_token_def)
  ultimately show ?thesis by simp
qed

lemma expand_escaped_once:
  assumes "word k" and "case fn of None \<Rightarrow> True | Some f \<Rightarrow> word f"
  shows "expand (Suc n) app button (escaped_token (Suc m) fn k) seen = Inr (escaped_token m fn k)"
  using tokenize_token [OF assms, of "Suc m"]
  by (simp add: replace_token_def mk_token_def escaped_token_def)

lemma expand_passes_escaped:
  assumes "word k" and "case fn of None \<Rightarrow> True | Some f \<Rightarrow> word f"
  shows "expand_passes N (Suc n) app button seen (escaped_token N fn k) = Inr (escaped_token 0 fn k)"
proof (induction N)
  case 0
  show ?case by simp
next
  case (Suc N)
  show ?case using expand_escaped_once [OF assms, of n app button N seen] Suc by simp
qed

subsection \<open>The pieces of a text make up the text\<close>

lemma match_key_text: "match_key r = Some (w, rest) \<Longrightarrow> r = w @ CHR ''}'' # rest"
proof -
  assume a: "match_key r = Some (w, rest)"
  have id: "takeWhile word_char r @ dropWhile word_char r = r" by (rule takeWhile_dropWhile_id)
  from a have "w = takeWhile word_char r" and "dropWhile word_char r = CHR ''}'' # rest"
    by (auto simp add: match_key_def Let_def split: if_splits list.splits)
  with id show ?thesis by simp
qed

lemma match_body_text:
  "match_body r = Some (fn, k, rest) \<Longrightarrow> r = token_body fn k @ CHR ''}'' # rest"
proof -
  assume a: "match_body r = Some (fn, k, rest)"
  have id: "takeWhile word_char r @ dropWhile word_char r = r" by (rule takeWhile_dropWhile_id)
  show ?thesis
  proof (cases fn)
    case None
    with a have "k = takeWhile word_char r" and "dropWhile word_char r = CHR ''}'' # rest"
      by (auto simp add: match_body_def Let_def split: if_splits list.splits option.splits)
    with id None show ?thesis by (simp add: token_body_def)
  next
    case (Some f)
    with a obtain r' where "f = takeWhile word_char r" and "dropWhile word_char r = CHR '':'' # r'"
      and "match_key r' = Some (k, rest)"
      by (auto simp add: match_body_def Let_def split: if_splits list.splits option.splits)
    with id Some match_key_text [of r' k rest] show ?thesis
      by (simp add: token_body_def)
  qed
qed

lemma match_token_text: "match_token s = Some (t, rest) \<Longrightarrow> s = tk_match t @ rest"
proof -
  assume a: "match_token s = Some (t, rest)"
  then obtain r r2 fn k where s: "s = CHR ''$'' # r"
    and d: "dropWhile (\<lambda>x. x = BSL) r = CHR ''{'' # r2"
    and b: "match_body r2 = Some (fn, k, rest)"
    and t: "t = mk_token (takeWhile (\<lambda>x. x = BSL) r) fn k"
    by (auto simp add: match_token_def split: if_splits list.splits option.splits)
  have "takeWhile (\<lambda>x. x = BSL) r @ dropWhile (\<lambda>x. x = BSL) r = r"
    by (rule takeWhile_dropWhile_id)
  with d have "r = takeWhile (\<lambda>x. x = BSL) r @ CHR ''{'' # r2" by simp
  with s t match_body_text [OF b] show ?thesis
    by (simp add: mk_token_def)
qed

lemma tokenize_text: "concat (map piece_text (tokenize s)) = s"
proof (induction s rule: tokenize.induct)
  case 1
  show ?case by simp
next
  case (2 c cs)
  show ?case
  proof (cases "match_token (c # cs)")
    case None
    with 2 show ?thesis by simp
  next
    case (Some found)
    obtain t rest where f: "found = (t, rest)" by (cases found)
    with Some 2 have ih: "concat (map piece_text (tokenize rest)) = rest" by simp
    from Some f have m: "match_token (c # cs) = Some (t, rest)" by simp
    then have "tokenize (c # cs) = Tok t # tokenize rest" by simp
    then have "concat (map piece_text (tokenize (c # cs))) = tk_match t @ rest"
      using ih by simp
    also have "\<dots> = c # cs" using match_token_text [OF m] by simp
    finally show ?thesis .
  qed
qed

lemma concatE_Inr: "concatE (map (\<lambda>p. Inr (f p)) ps) = Inr (concat (map f ps))"
  by (induction ps) simp_all

lemma expand_unchanged:
  assumes "\<And>t. Tok t \<in> set (tokenize str) \<Longrightarrow>
             tk_slash t = [] \<and>
             (token_key t \<in> seen \<or>
              lookup n app button None (Some (token_key t)) False
                (Some (insert (token_key t) seen)) = Inr VNull)"
  shows "expand (Suc n) app button str seen = Inr str"
proof -
  have "expand_piece n app button seen p = Inr (piece_text p)" if "p \<in> set (tokenize str)" for p
  proof (cases p)
    case (Lit c)
    then show ?thesis by (simp add: expand_piece_def)
  next
    case (Tok t)
    with that assms [of t] show ?thesis
      by (auto simp add: expand_piece_def replace_token_def)
  qed
  then have "map (expand_piece n app button seen) (tokenize str)
               = map (\<lambda>p. Inr (piece_text p)) (tokenize str)"
    by simp
  then show ?thesis
    unfolding expand_Suc by (simp only: concatE_Inr tokenize_text)
qed

subsection \<open>A lookup with a number never reads \<open>set\<close>, one with a string never \<open>setList\<close>\<close>

lemma map_of_map_value:
  "map_of (map (\<lambda>(name, b). (name, f b)) ts) k = map_option f (map_of ts k)"
  by (induction ts) auto

lemma parent_of_map_templates:
  assumes "\<And>b. btn_is (f b) = btn_is b"
  shows "parent_of (map_templates f app) (map_option f button)
           = map_option f (parent_of app button)"
  using assms
  by (cases button; cases "templates app")
     (auto simp add: parent_of_def map_templates_def map_of_map_value split: option.splits)

lemma lookup_number_ignores_set:
  "lookup n (map_templates without_set app) (map_option without_set button) None
      (Some (KNum x)) True seen
     = lookup n app button None (Some (KNum x)) True seen"
proof (induction n arbitrary: button)
  case 0
  show ?case by simp
next
  case (Suc n)
  have p: "parent_of (map_templates without_set app) (Some (without_set b))
             = map_option without_set (parent_of app (Some b))" for b
    using parent_of_map_templates [of without_set app "Some b"] by (simp add: without_set_def)
  have g: "global_value (map_templates without_set app) (KNum x) = global_value app (KNum x)"
    by (simp add: global_value_def map_templates_def)
  show ?case
  proof (cases button)
    case None
    then show ?thesis by simp
  next
    case (Some b)
    have o: "own_list (without_set b) (KNum x) = own_list b (KNum x)"
      by (simp add: without_set_def)
    from Some show ?thesis
      using Suc.IH [of "parent_of app button"]
      by (simp add: p g o del: own_list.simps)
  qed
qed

lemma lookup_string_ignores_setList:
  "lookup n (map_templates without_setList app) (map_option without_setList button) None
      (Some (KStr k)) True seen
     = lookup n app button None (Some (KStr k)) True seen"
proof (induction n arbitrary: button)
  case 0
  show ?case by simp
next
  case (Suc n)
  have p: "parent_of (map_templates without_setList app) (Some (without_setList b))
             = map_option without_setList (parent_of app (Some b))" for b
    using parent_of_map_templates [of without_setList app "Some b"]
    by (simp add: without_setList_def)
  have g: "global_value (map_templates without_setList app) (KStr k) = global_value app (KStr k)"
    by (simp add: global_value_def map_templates_def)
  show ?case
  proof (cases button)
    case None
    then show ?thesis by simp
  next
    case (Some b)
    have o: "own_set (without_setList b) (KStr k) = own_set b (KStr k)"
      by (simp add: without_setList_def)
    from Some show ?thesis
      using Suc.IH [of "parent_of app button"]
      by (simp add: p g o del: own_set.simps)
  qed
qed

subsection \<open>The internal lookup along the chain\<close>

lemma lookup_prop_Suc:
  "lookup (Suc n) app (Some b) (Some p) None True seen =
     (case get_prop b p of
        Some v \<Rightarrow> Inr v
      | None \<Rightarrow> lookup n app (parent_of app (Some b)) (Some p) None True seen)"
  by (auto simp add: Let_def split: option.splits sum.splits jsval.splits)

lemma lookup_chain_prop:
  "chain_ends c app button \<Longrightarrow> c < n
     \<Longrightarrow> lookup n app button (Some p) None True seen
         = Inr (case chain_prop c app button p of Some v \<Rightarrow> v | None \<Rightarrow> VNull)"
proof (induction c arbitrary: button n)
  case 0
  then obtain n' where "n = Suc n'" by (cases n) auto
  with 0 show ?case by (cases button) simp_all
next
  case (Suc c)
  then obtain n' where n: "n = Suc n'" "c < n'" by (cases n) auto
  show ?case
  proof (cases button)
    case None
    with n show ?thesis by simp
  next
    case (Some b)
    with Suc.prems have "chain_ends c app (parent_of app (Some b))" by simp
    then have "lookup n' app (parent_of app (Some b)) (Some p) None True seen
         = Inr (case chain_prop c app (parent_of app (Some b)) p of Some v \<Rightarrow> v | None \<Rightarrow> VNull)"
      using n(2) by (rule Suc.IH)
    then show ?thesis
      unfolding Some n lookup_prop_Suc by (simp split: option.splits)
  qed
qed

lemma lookup_chain_set:
  "chain_ends c app (Some b) \<Longrightarrow> c < n
     \<Longrightarrow> lookup n app (Some b) None (Some k) True seen
         = (case chain_set c app (Some b) k of
              Some v \<Rightarrow> Inr (VStr v)
            | None \<Rightarrow> global_value app k)"
proof (induction c arbitrary: b n)
  case 0
  then show ?case by simp
next
  case (Suc c)
  then obtain n' where n: "n = Suc n'" "c < n'" by (cases n) auto
  have gt: "is_text (global_value app k)" by simp
  have fin: "finish True ex r = r" if "is_text r" for ex r
    using that by (cases r) (auto simp add: finish_def is_text_def split: jsval.splits)
  have gg: "coalesce (global_value app k) (global_value app k) = global_value app k"
    by (cases "global_value app k") (auto simp add: coalesce_def split: jsval.splits)
  have cs: "coalesce (Inr VNull) x = x" "coalesce (Inr (VStr v)) x = Inr (VStr v)" for x v
    by (simp_all add: coalesce_def)
  let ?want = "case chain_set (Suc c) app (Some b) k of
              Some v \<Rightarrow> Inr (VStr v)
            | None \<Rightarrow> global_value app k"
  have wt: "is_text ?want" by (simp split: option.splits)
  have raw: "coalesce
          (coalesce
             (coalesce (opt_str (own_set b k)) (opt_str (own_list b k)))
             (lookup n' app (parent_of app (Some b)) None (Some k) True seen))
          (global_value app k) = ?want"
  proof (cases "parent_of app (Some b)")
    case None
    have "lookup n' app None None (Some k) True seen = Inr VNull"
      using n(2) by (cases n') simp_all
    with None show ?thesis
      by (cases "own_set b k"; cases "own_list b k")
         (simp_all add: cs opt_str_def)
  next
    case (Some q)
    with Suc.prems have "chain_ends c app (Some q)" by simp
    then have ih: "lookup n' app (Some q) None (Some k) True seen
         = (case chain_set c app (Some q) k of
              Some v \<Rightarrow> Inr (VStr v)
            | None \<Rightarrow> global_value app k)"
      using n(2) by (rule Suc.IH)
    show ?thesis
      unfolding Some ih
      by (cases "own_set b k"; cases "own_list b k"; cases "chain_set c app (Some q) k")
         (simp_all add: cs opt_str_def gg Some)
  qed
  show ?case
    unfolding n lookup_set_Suc raw by (rule fin [OF wt])
qed

subsection \<open>More stack changes no result\<close>

lemma lookup_Suc:
  "lookup (Suc n) app button key setKey isLookup seen =
     finish isLookup (\<lambda>s. expand n app button s (seen_or seen setKey))
       (raw_result app button key setKey
          (lookup n app (parent_of app button) key setKey True seen))"
  by (cases button; cases key; cases setKey)
     (simp_all add: finish_def raw_result_def seen_or_def Let_def split: sum.splits jsval.splits option.splits)

lemma coalesce_mono:
  assumes "coalesce a b \<noteq> Inl StackOverflow"
    and "a \<noteq> Inl StackOverflow \<Longrightarrow> a' = a" and "b \<noteq> Inl StackOverflow \<Longrightarrow> b' = b"
  shows "coalesce a' b' = coalesce a b"
  using assms by (cases a) (auto simp add: coalesce_def split: jsval.splits)

lemma raw_result_mono:
  assumes "raw_result app button key setKey fp \<noteq> Inl StackOverflow"
    and "fp \<noteq> Inl StackOverflow \<Longrightarrow> fp' = fp"
  shows "raw_result app button key setKey fp' = raw_result app button key setKey fp"
proof (cases "\<exists>b k. button = Some b \<and> key = None \<and> setKey = Some k")
  case True
  then obtain b k where h: "button = Some b" "key = None" "setKey = Some k" by blast
  have ne: "opt_str x \<noteq> Inl StackOverflow" for x by (cases x) (simp_all add: opt_str_def)
  from assms(1) have r: "coalesce
            (coalesce (coalesce (opt_str (own_set b k)) (opt_str (own_list b k))) fp)
            (global_value app k) \<noteq> Inl StackOverflow"
    by (simp add: raw_result_def h)
  have "coalesce (coalesce (coalesce (opt_str (own_set b k)) (opt_str (own_list b k))) fp')
            (global_value app k)
        = coalesce (coalesce (coalesce (opt_str (own_set b k)) (opt_str (own_list b k))) fp)
            (global_value app k)"
  proof (rule coalesce_mono [OF r])
    assume n1: "coalesce (coalesce (opt_str (own_set b k)) (opt_str (own_list b k))) fp \<noteq> Inl StackOverflow"
    show "coalesce (coalesce (opt_str (own_set b k)) (opt_str (own_list b k))) fp'
          = coalesce (coalesce (opt_str (own_set b k)) (opt_str (own_list b k))) fp"
      by (rule coalesce_mono [OF n1]) (simp_all add: assms(2))
  qed simp
  then show ?thesis by (simp add: raw_result_def h)
next
  case False
  with assms show ?thesis
    by (cases button; cases key; cases setKey)
       (auto simp add: raw_result_def split: option.splits)
qed

lemma finish_mono:
  assumes "finish isLookup ex r \<noteq> Inl StackOverflow"
    and "r \<noteq> Inl StackOverflow \<Longrightarrow> r' = r"
    and "\<And>s. ex s \<noteq> Inl StackOverflow \<Longrightarrow> ex' s = ex s"
  shows "finish isLookup ex' r' = finish isLookup ex r"
proof (cases r)
  case (Inl e)
  with assms show ?thesis by (auto simp add: finish_def)
next
  case (Inr v)
  with assms(2) have r': "r' = Inr v" by simp
  show ?thesis
  proof (cases v)
    case (VStr s)
    show ?thesis
    proof (cases isLookup)
      case True
      then show ?thesis by (simp add: finish_def Inr r' VStr)
    next
      case False
      with assms(1) have "ex s \<noteq> Inl StackOverflow"
        by (auto simp add: finish_def Inr VStr split: sum.splits)
      then have "ex' s = ex s" by (rule assms(3))
      then show ?thesis by (simp add: finish_def Inr r' VStr)
    qed
  qed (simp_all add: finish_def Inr r')
qed

lemma replace_token_mono:
  assumes "replace_token t sn looked \<noteq> Inl StackOverflow"
    and "looked \<noteq> Inl StackOverflow \<Longrightarrow> looked' = looked"
  shows "replace_token t sn looked' = replace_token t sn looked"
  using assms by (cases looked) (auto simp add: replace_token_def)

lemma concatE_mono:
  assumes "concatE (map f ps) \<noteq> Inl StackOverflow"
    and "\<And>p. f p \<noteq> Inl StackOverflow \<Longrightarrow> g p = f p"
  shows "concatE (map g ps) = concatE (map f ps)"
  using assms(1)
proof (induction ps)
  case Nil
  show ?case by simp
next
  case (Cons p ps)
  show ?case
  proof (cases "f p")
    case (Inl e)
    with Cons.prems have "e \<noteq> StackOverflow" by simp
    with Inl assms(2) [of p] show ?thesis by simp
  next
    case (Inr s)
    with assms(2) [of p] have g: "g p = Inr s" by simp
    from Cons.prems Inr have "concatE (map f ps) \<noteq> Inl StackOverflow"
      by (auto split: sum.splits)
    then have "concatE (map g ps) = concatE (map f ps)" by (rule Cons.IH)
    with Inr g show ?thesis by simp
  qed
qed

lemma fuel_step:
  "(lookup n app button key setKey isLookup seen \<noteq> Inl StackOverflow
      \<longrightarrow> lookup (Suc n) app button key setKey isLookup seen
            = lookup n app button key setKey isLookup seen)
   \<and> (expand n app button str sn \<noteq> Inl StackOverflow
      \<longrightarrow> expand (Suc n) app button str sn = expand n app button str sn)"
proof (induction n arbitrary: button key setKey isLookup seen str sn)
  case 0
  show ?case by simp
next
  case (Suc n)
  have l: "lookup (Suc (Suc n)) app button key setKey isLookup seen
             = lookup (Suc n) app button key setKey isLookup seen"
    if ne: "lookup (Suc n) app button key setKey isLookup seen \<noteq> Inl StackOverflow"
  proof -
    from ne have f: "finish isLookup (\<lambda>s. expand n app button s (seen_or seen setKey))
       (raw_result app button key setKey
          (lookup n app (parent_of app button) key setKey True seen)) \<noteq> Inl StackOverflow"
      unfolding lookup_Suc .
    have "finish isLookup (\<lambda>s. expand (Suc n) app button s (seen_or seen setKey))
       (raw_result app button key setKey
          (lookup (Suc n) app (parent_of app button) key setKey True seen))
      = finish isLookup (\<lambda>s. expand n app button s (seen_or seen setKey))
       (raw_result app button key setKey
          (lookup n app (parent_of app button) key setKey True seen))"
    proof (rule finish_mono [OF f])
      assume r: "raw_result app button key setKey
          (lookup n app (parent_of app button) key setKey True seen) \<noteq> Inl StackOverflow"
      show "raw_result app button key setKey
          (lookup (Suc n) app (parent_of app button) key setKey True seen)
         = raw_result app button key setKey
          (lookup n app (parent_of app button) key setKey True seen)"
        by (rule raw_result_mono [OF r]) (use Suc.IH in blast)
    next
      fix s
      assume "expand n app button s (seen_or seen setKey) \<noteq> Inl StackOverflow"
      then show "expand (Suc n) app button s (seen_or seen setKey)
                   = expand n app button s (seen_or seen setKey)"
        using Suc.IH by blast
    qed
    then show ?thesis unfolding lookup_Suc .
  qed
  have e: "expand (Suc (Suc n)) app button str sn = expand (Suc n) app button str sn"
    if ne: "expand (Suc n) app button str sn \<noteq> Inl StackOverflow"
  proof -
    from ne have c: "concatE (map (expand_piece n app button sn) (tokenize str)) \<noteq> Inl StackOverflow"
      unfolding expand_Suc .
    have "concatE (map (expand_piece (Suc n) app button sn) (tokenize str))
            = concatE (map (expand_piece n app button sn) (tokenize str))"
    proof (rule concatE_mono [OF c])
      fix p
      assume pn: "expand_piece n app button sn p \<noteq> Inl StackOverflow"
      show "expand_piece (Suc n) app button sn p = expand_piece n app button sn p"
      proof (cases p)
        case (Lit c)
        then show ?thesis by (simp add: expand_piece_def)
      next
        case (Tok t)
        from pn Tok have r: "replace_token t sn
            (lookup n app button None (Some (token_key t)) False
               (Some (insert (token_key t) sn))) \<noteq> Inl StackOverflow"
          by (simp add: expand_piece_def)
        have "replace_token t sn
            (lookup (Suc n) app button None (Some (token_key t)) False
               (Some (insert (token_key t) sn)))
           = replace_token t sn
            (lookup n app button None (Some (token_key t)) False
               (Some (insert (token_key t) sn)))"
          by (rule replace_token_mono [OF r]) (use Suc.IH in blast)
        with Tok show ?thesis by (simp add: expand_piece_def)
      qed
    qed
    then show ?thesis unfolding expand_Suc .
  qed
  from l e show ?case by blast
qed

subsection \<open>With a global map and a chain that ends, expansion ends with a string\<close>

lemma known_null [simp]: "known c app button (Inr VNull)"
  by (simp add: known_def)

lemma known_opt_own_set: "known (Suc c) app (Some b) (opt_str (own_set b k))"
proof (cases k)
  case (KNum x)
  then show ?thesis by (simp add: opt_str_def)
next
  case (KStr s)
  show ?thesis
  proof (cases "btn_set b")
    case None
    with KStr show ?thesis by (simp add: opt_str_def)
  next
    case (Some m)
    show ?thesis
    proof (cases "map_of m s")
      case None
      with KStr Some show ?thesis by (simp add: opt_str_def)
    next
      case (Some v)
      then have "(s, v) \<in> set m" by (rule map_of_SomeD)
      then have "v \<in> snd ` set m" by force
      with KStr \<open>btn_set b = Some m\<close> Some show ?thesis
        by (simp add: opt_str_def known_def)
    qed
  qed
qed

lemma known_opt_own_list: "known (Suc c) app (Some b) (opt_str (own_list b k))"
proof (cases k)
  case (KStr s)
  then show ?thesis by (simp add: opt_str_def)
next
  case (KNum x)
  show ?thesis
  proof (cases "btn_setList b")
    case None
    with KNum show ?thesis by (simp add: opt_str_def)
  next
    case (Some xs)
    with KNum show ?thesis
      by (cases x) (auto simp add: opt_str_def known_def)
  qed
qed

lemma known_global: "setGlobals app = Some g \<Longrightarrow> known c app button (global_value app k)"
proof -
  assume g: "setGlobals app = Some g"
  show ?thesis
  proof (cases "map_of g (key_string k)")
    case None
    with g show ?thesis by (simp add: global_value_def opt_str_def)
  next
    case (Some v)
    then have "(key_string k, v) \<in> set g" by (rule map_of_SomeD)
    then have "v \<in> snd ` set g" by force
    with g Some show ?thesis
      by (simp add: global_value_def opt_str_def known_def global_values_def)
  qed
qed

lemma known_parent: "known c app (parent_of app (Some b)) r \<Longrightarrow> known (Suc c) app (Some b) r"
  by (auto simp add: known_def)

lemma known_coalesce: "known c app button a \<Longrightarrow> known c app button b \<Longrightarrow> known c app button (coalesce a b)"
  by (auto simp add: known_def coalesce_def)

lemma finish_internal: "known c app button r \<Longrightarrow> finish True ex r = r"
  by (auto simp add: known_def finish_def)

text \<open>The internal lookup of a key ends when the chain does and there is a global map.\<close>

lemma raw_chain_known:
  assumes "setGlobals app = Some g"
    and "known c app (parent_of app (Some b)) fp"
  shows "known (Suc c) app (Some b)
           (coalesce
              (coalesce (coalesce (opt_str (own_set b k)) (opt_str (own_list b k))) fp)
              (global_value app k))"
  by (intro known_coalesce known_opt_own_set known_opt_own_list known_parent assms(2)
        known_global [OF assms(1)])

lemma raw_lookup_known:
  assumes "setGlobals app = Some g"
  shows "chain_ends c app button \<Longrightarrow> c < n
          \<Longrightarrow> known c app button (lookup n app button None (Some k) True seen)"
proof (induction c arbitrary: button n)
  case 0
  then obtain n' where "n = Suc n'" by (cases n) auto
  with 0 show ?case by (cases button) simp_all
next
  case (Suc c)
  then obtain n' where n: "n = Suc n'" "c < n'" by (cases n) auto
  show ?case
  proof (cases button)
    case None
    with n show ?thesis by simp
  next
    case (Some b)
    with Suc.prems have "chain_ends c app (parent_of app (Some b))" by simp
    then have p: "known c app (parent_of app (Some b))
                    (lookup n' app (parent_of app (Some b)) None (Some k) True seen)"
      using n(2) by (rule Suc.IH)
    have "known (Suc c) app (Some b)
            (coalesce
               (coalesce
                  (coalesce (opt_str (own_set b k)) (opt_str (own_list b k)))
                  (lookup n' app (parent_of app (Some b)) None (Some k) True seen))
               (global_value app k))"
      using assms p by (rule raw_chain_known)
    then show ?thesis
      unfolding Some n lookup_set_Suc by (simp add: finish_internal)
  qed
qed

lemma concatE_all_Inr:
  assumes "\<And>p. p \<in> set ps \<Longrightarrow> \<exists>s. f p = Inr s"
  shows "\<exists>r. concatE (map f ps) = Inr r"
  using assms
proof (induction ps)
  case Nil
  show ?case by simp
next
  case (Cons p ps)
  then obtain s where "f p = Inr s" by auto
  moreover from Cons obtain r where "concatE (map f ps) = Inr r" by auto
  ultimately show ?case by simp
qed

lemma replace_token_ok:
  assumes "token_key t \<notin> seen \<Longrightarrow> tk_slash t = [] \<Longrightarrow> \<exists>v. looked = Inr v \<and> (v = VNull \<or> (\<exists>s. v = VStr s))"
  shows "\<exists>r. replace_token t seen looked = Inr r"
  using assms by (auto simp add: replace_token_def)

lemma token_key_in_text_keys: "Tok t \<in> set (tokenize s) \<Longrightarrow> token_key t \<in> set (text_keys s)"
  by (force simp add: text_keys_def)

lemma lookup_token_total:
  assumes g: "setGlobals app = Some g" and ce: "chain_ends c app button" and cn: "c \<le> n'"
    and ex: "\<And>s'. s' \<in> set (chain_values c app button @ global_values app)
                \<Longrightarrow> \<exists>r. expand n' app button s' sn = Inr r"
  shows "\<exists>v. lookup (Suc n') app button None (Some k) False (Some sn) = Inr v
             \<and> (v = VNull \<or> (\<exists>s. v = VStr s))"
proof (cases button)
  case None
  then show ?thesis by simp
next
  case (Some b)
  from ce Some obtain c' where c': "c = Suc c'" "chain_ends c' app (parent_of app (Some b))"
    by (cases c) auto
  with cn have "c' < n'" by simp
  with g c'(2) have "known c' app (parent_of app (Some b))
      (lookup n' app (parent_of app (Some b)) None (Some k) True (Some sn))"
    by (rule raw_lookup_known)
  with g have "known (Suc c') app (Some b)
      (coalesce
         (coalesce
            (coalesce (opt_str (own_set b k)) (opt_str (own_list b k)))
            (lookup n' app (parent_of app (Some b)) None (Some k) True (Some sn)))
         (global_value app k))"
    by (rule raw_chain_known)
  then have kn: "known c app button
      (coalesce
         (coalesce
            (coalesce (opt_str (own_set b k)) (opt_str (own_list b k)))
            (lookup n' app (parent_of app (Some b)) None (Some k) True (Some sn)))
         (global_value app k))" (is "known c app button ?raw")
    using Some c'(1) by simp
  have lk: "lookup (Suc n') app button None (Some k) False (Some sn)
          = finish False (\<lambda>s. expand n' app button s sn) ?raw"
    unfolding Some lookup_set_Suc by simp
  from kn consider "?raw = Inr VNull"
    | s' where "s' \<in> set (chain_values c app button @ global_values app)" "?raw = Inr (VStr s')"
    unfolding known_def by blast
  then show ?thesis
  proof cases
    case 1
    then show ?thesis unfolding lk by (simp add: finish_def)
  next
    case 2
    from ex [OF 2(1)] obtain r where "expand n' app button s' sn = Inr r" ..
    with 2(2) show ?thesis unfolding lk by (simp add: finish_def)
  qed
qed

lemma nested_total:
  assumes g: "setGlobals app = Some g" and ce: "chain_ends c app button"
  shows "s \<in> set (chain_values c app button @ global_values app)
         \<Longrightarrow> card (set (value_keys c app button) - seen) \<le> m
         \<Longrightarrow> fuel_for c m \<le> n
         \<Longrightarrow> \<exists>r. expand n app button s seen = Inr r"
proof (induction m arbitrary: s seen n)
  case 0
  then obtain n' where n: "n = Suc n'" by (cases n) (auto simp add: fuel_for_def)
  from 0 have sub: "set (value_keys c app button) \<subseteq> seen" by simp
  have "\<exists>r. expand_piece n' app button seen p = Inr r" if "p \<in> set (tokenize s)" for p
  proof (cases p)
    case (Lit ch)
    then show ?thesis by (simp add: expand_piece_def)
  next
    case (Tok t)
    with that have "token_key t \<in> set (text_keys s)" by (simp add: token_key_in_text_keys)
    with 0(1) have "token_key t \<in> set (value_keys c app button)"
      by (auto simp add: value_keys_def)
    with sub have "token_key t \<in> seen" by blast
    then show ?thesis unfolding Tok expand_piece_def piece.case
      by (intro replace_token_ok) simp
  qed
  then show ?case unfolding n expand_Suc by (rule concatE_all_Inr)
next
  case (Suc m)
  then obtain n' where n: "n = Suc (Suc n')" "fuel_for c m \<le> n'" "c \<le> n'"
    by (cases n; cases "n - 1") (auto simp add: fuel_for_def)
  have "\<exists>r. expand_piece (Suc n') app button seen p = Inr r" if "p \<in> set (tokenize s)" for p
  proof (cases p)
    case (Lit ch)
    then show ?thesis by (simp add: expand_piece_def)
  next
    case (Tok t)
    with that have "token_key t \<in> set (text_keys s)" by (simp add: token_key_in_text_keys)
    with Suc.prems(1) have kk: "token_key t \<in> set (value_keys c app button)"
      by (auto simp add: value_keys_def)
    show ?thesis unfolding Tok expand_piece_def piece.case
    proof (rule replace_token_ok)
      assume ns: "token_key t \<notin> seen"
      let ?sn = "insert (token_key t) seen"
      have fin: "finite (set (value_keys c app button) - seen)" by simp
      have "set (value_keys c app button) - ?sn \<subset> set (value_keys c app button) - seen"
        using kk ns by blast
      then have "card (set (value_keys c app button) - ?sn)
                   < card (set (value_keys c app button) - seen)"
        using fin by (rule psubset_card_mono [rotated])
      with Suc.prems(2) have cd: "card (set (value_keys c app button) - ?sn) \<le> m" by simp
      have "\<exists>r. expand n' app button s' ?sn = Inr r"
        if "s' \<in> set (chain_values c app button @ global_values app)" for s'
        using that cd n(2) by (rule Suc.IH)
      with g ce n(3)
      show "\<exists>v. lookup (Suc n') app button None (Some (token_key t)) False (Some ?sn) = Inr v
                 \<and> (v = VNull \<or> (\<exists>s. v = VStr s))"
        by (rule lookup_token_total)
    qed
  qed
  then show ?case unfolding n expand_Suc by (rule concatE_all_Inr)
qed

lemma fuel_mono:
  assumes "expand n app button str sn = Inr r" and "n \<le> n'"
  shows "expand n' app button str sn = Inr r"
  using assms(2)
proof (induction n' rule: dec_induct)
  case base
  show ?case by (rule assms(1))
next
  case (step k)
  then show ?case using fuel_step [of k app button None None False None str sn] by simp
qed

lemma lookup_fuel_mono:
  assumes "lookup n app button key setKey isLookup seen = Inr v" and "n \<le> n'"
  shows "lookup n' app button key setKey isLookup seen = Inr v"
  using assms(2)
proof (induction n' rule: dec_induct)
  case base
  show ?case by (rule assms(1))
next
  case (step k)
  then show ?case using fuel_step [of k app button key setKey isLookup seen "[]" "{}"] by simp
qed

lemma expand_total:
  assumes g: "setGlobals app = Some g" and ce: "chain_ends c app button"
  shows "\<exists>r. \<forall>n \<ge> expand_fuel c app button. expand n app button str seen = Inr r"
proof -
  let ?M = "length (value_keys c app button)"
  let ?n = "fuel_for c ?M"
  have cn: "c \<le> ?n" by (simp add: fuel_for_def)
  have inner: "\<exists>r. expand ?n app button s sn = Inr r"
    if "s \<in> set (chain_values c app button @ global_values app)" for s sn
  proof -
    have "card (set (value_keys c app button) - sn) \<le> card (set (value_keys c app button))"
      by (rule card_mono) auto
    also have "\<dots> \<le> ?M" by (rule card_length)
    finally show ?thesis using nested_total [OF g ce that] by blast
  qed
  have "\<exists>r. expand_piece (Suc ?n) app button seen p = Inr r" for p
  proof (cases p)
    case (Lit ch)
    then show ?thesis by (simp add: expand_piece_def)
  next
    case (Tok t)
    show ?thesis unfolding Tok expand_piece_def piece.case
      by (rule replace_token_ok) (rule lookup_token_total [OF g ce cn inner])
  qed
  then have "\<exists>r. expand (Suc (Suc ?n)) app button str seen = Inr r"
    unfolding expand_Suc by (intro concatE_all_Inr) blast
  then obtain r where r: "expand (Suc (Suc ?n)) app button str seen = Inr r" ..
  have "\<forall>n \<ge> expand_fuel c app button. expand n app button str seen = Inr r"
  proof (intro allI impI)
    fix n
    assume "expand_fuel c app button \<le> n"
    then have "Suc (Suc ?n) \<le> n" by (simp add: expand_fuel_def)
    with r show "expand n app button str seen = Inr r" by (rule fuel_mono)
  qed
  then show ?thesis ..
qed

lemma lookup_absent_key_null:
  assumes "setGlobals app = Some g" and "map_of g (key_string k) = None"
  shows "chain_ends c app button \<Longrightarrow> chain_absent c app button k \<Longrightarrow> c < n
          \<Longrightarrow> lookup n app button None (Some k) isLookup seen = Inr VNull"
proof (induction c arbitrary: button n isLookup)
  case 0
  then obtain n' where "n = Suc n'" by (cases n) auto
  with 0 show ?case by (cases button) simp_all
next
  case (Suc c)
  then obtain n' where n: "n = Suc n'" "c < n'" by (cases n) auto
  show ?case
  proof (cases button)
    case None
    with n show ?thesis by simp
  next
    case (Some b)
    with Suc.prems have "chain_ends c app (parent_of app (Some b))"
      and "chain_absent c app (parent_of app (Some b)) k"
      and own: "own_set b k = None" "own_list b k = None"
      by simp_all
    then have "lookup n' app (parent_of app (Some b)) None (Some k) True seen = Inr VNull"
      using n(2) by (intro Suc.IH)
    with own assms show ?thesis
      unfolding Some n lookup_set_Suc
      by (simp add: finish_def coalesce_def opt_str_def global_value_def)
  qed
qed

text \<open>Without a global map the same lookup throws, whatever the button.\<close>

lemma lookup_absent_key_TypeError:
  assumes "setGlobals app = None"
  shows "chain_ends c app (Some b) \<Longrightarrow> chain_absent c app (Some b) k \<Longrightarrow> c < n
          \<Longrightarrow> lookup n app (Some b) None (Some k) isLookup seen = Inl TypeError"
proof (induction c arbitrary: b n isLookup)
  case 0
  then show ?case by simp
next
  case (Suc c)
  then obtain n' where n: "n = Suc n'" "c < n'" by (cases n) auto
  from Suc.prems have own: "own_set b k = None" "own_list b k = None" by simp_all
  show ?case
  proof (cases "parent_of app (Some b)")
    case None
    have "lookup n' app None None (Some k) True seen = Inr VNull"
      using n(2) by (cases n') simp_all
    with own assms None show ?thesis
      unfolding n lookup_set_Suc
      by (simp add: finish_def coalesce_def opt_str_def global_value_def)
  next
    case (Some p)
    with Suc.prems have "chain_ends c app (Some p)" and "chain_absent c app (Some p) k"
      by simp_all
    then have "lookup n' app (Some p) None (Some k) True seen = Inl TypeError"
      using n(2) by (rule Suc.IH)
    with own Some show ?thesis
      unfolding n lookup_set_Suc
      by (simp add: finish_def coalesce_def opt_str_def)
  qed
qed

subsection \<open>What \<open>encodeURIComponent\<close> leaves in a string\<close>






subsection \<open>The visited set is the same after every call\<close>

text \<open>
  The translation that carries the set as a state gives the results of \<open>lookup\<close> and
  \<open>expand\<close>, and leaves the set as it was handed in.
\<close>

lemma coalesce_st_with_seen:
  "coalesce_st (with_seen s a) (\<lambda>s1. with_seen s1 (b s1)) = with_seen s (coalesce a (b s))"
  by (cases a) (auto simp add: coalesce_st_def with_seen_def coalesce_def split: jsval.splits)

lemma finish_st_with_seen:
  "finish_st isLookup (\<lambda>s seen1. with_seen seen1 (str_result (f s seen1))) (with_seen seen r)
     = with_seen seen (finish isLookup (\<lambda>s. f s seen) r)"
  by (cases r)
     (auto simp add: finish_st_def with_seen_def finish_def str_result_def
           split: jsval.splits sum.splits)

lemma str_st_keep:
  "str_st Some (keep sn r) = with_seen (Some sn) (str_result r)"
  "str_st (\<lambda>x. None) (keep sn r) = with_seen None (str_result r)"
  by (cases r; simp add: str_st_def keep_def with_seen_def str_result_def)+

lemma and_then_keep:
  "and_then r (keep sn rest) = keep sn (case rest of Inl e \<Rightarrow> Inl e | Inr t \<Rightarrow> Inr (r @ t))"
  by (cases rest) (simp_all add: and_then_def keep_def)

lemma replace_st_agrees:
  assumes "\<And>button key setKey isLookup seen.
             lookup_st n app button key setKey isLookup seen
               = with_seen seen (lookup n app button key setKey isLookup seen)"
  shows "replace_st n app button ps sn
           = keep sn (concatE (map (expand_piece n app button sn) ps))"
proof (induction ps)
  case Nil
  show ?case by (simp add: keep_def)
next
  case (Cons p ps)
  let ?rest = "concatE (map (expand_piece n app button sn) ps)"
  have step: "concatE (Inr r # map (expand_piece n app button sn) ps)
                = (case ?rest of Inl e \<Rightarrow> Inl e | Inr t \<Rightarrow> Inr (r @ t))" for r
    by simp
  show ?case
  proof (cases p)
    case (Lit c)
    with Cons show ?thesis by (simp add: and_then_keep expand_piece_def)
  next
    case (Tok t)
    let ?l = "lookup n app button None (Some (token_key t)) False (Some (insert (token_key t) sn))"
    have piece: "expand_piece n app button sn p = replace_token t sn ?l"
      using Tok by (simp add: expand_piece_def)
    consider (escaped) "tk_slash t \<noteq> []"
      | (seen) "tk_slash t = []" "token_key t \<in> sn"
      | (looked) "tk_slash t = []" "token_key t \<notin> sn"
      by blast
    then show ?thesis
    proof cases
      case escaped
      then have "replace_token t sn ?l
                   = Inr (CHR ''$'' # tl (tk_slash t) @ CHR ''{'' # tk_body t @ ''}'')"
        by (simp add: replace_token_def)
      with escaped Tok Cons piece show ?thesis
        by (simp add: and_then_keep del: concatE.simps add: step)
    next
      case seen
      then have "replace_token t sn ?l = Inr (tk_match t)"
        by (simp add: replace_token_def)
      with seen Tok Cons piece show ?thesis
        by (simp add: and_then_keep)
    next
      case looked
      have restore: "insert (token_key t) sn - {token_key t} = sn" using looked by auto
      show ?thesis
      proof (cases ?l)
        case (Inl e)
        then have "replace_token t sn ?l = Inl e"
          using looked by (simp add: replace_token_def)
        with Inl Tok looked piece show ?thesis
          by (simp add: assms with_seen_def keep_def)
      next
        case (Inr v)
        show ?thesis
        proof (cases "replace_token t sn (Inr v)")
          case (Inl e)
          with Tok looked Inr piece show ?thesis
            by (simp add: assms with_seen_def keep_def)
        next
          case r: (Inr r)
          with Tok looked Inr Cons piece show ?thesis
            by (simp add: assms with_seen_def restore and_then_keep)
        qed
      qed
    qed
  qed
qed

lemma st_agrees:
  "lookup_st n app button key setKey isLookup seen
     = with_seen seen (lookup n app button key setKey isLookup seen)
   \<and> expand_st n app button str sn = keep sn (expand n app button str sn)"
proof (induction n arbitrary: button key setKey isLookup seen str sn)
  case 0
  show ?case by (simp add: with_seen_def keep_def)
next
  case (Suc n)
  have l: "lookup_st n app button key setKey isLookup seen
             = with_seen seen (lookup n app button key setKey isLookup seen)"
    for button key setKey isLookup seen
    using Suc.IH by blast
  have l': "lookup_st n app button key setKey isLookup
             = (\<lambda>seen. with_seen seen (lookup n app button key setKey isLookup seen))"
    for button key setKey isLookup
    by (intro ext) (rule l)
  have e: "expand_st n app button str sn = keep sn (expand n app button str sn)" for button str sn
    using Suc.IH by blast
  have ex: "(\<lambda>s seen1. case seen1 of
                     Some sn \<Rightarrow> str_st Some (expand_st n app button s sn)
                   | None \<Rightarrow>
                       str_st (\<lambda>sn. None)
                         (expand_st n app button s
                            {case setKey of Some k \<Rightarrow> k | None \<Rightarrow> KStr []}))
          = (\<lambda>s seen1. with_seen seen1 (str_result (expand n app button s (seen_or seen1 setKey))))"
    by (intro ext) (simp add: e str_st_keep seen_or_def split: option.splits)
  have raw: "(case (button, key, setKey) of
          (Some b, Some p, None) \<Rightarrow>
            (case get_prop b p of
               Some v \<Rightarrow> Inr (v, seen)
             | None \<Rightarrow> lookup_st n app (parent_of app button) key None True seen)
        | (Some b, None, Some k) \<Rightarrow>
            coalesce_st
              (coalesce_st
                 (with_seen seen (coalesce (opt_str (own_set b k)) (opt_str (own_list b k))))
                 (\<lambda>seen1. lookup_st n app (parent_of app button) None setKey True seen1))
              (\<lambda>seen1. with_seen seen1 (global_value app k))
        | _ \<Rightarrow> Inr (VNull, seen))
       = with_seen seen (raw_result app button key setKey
            (lookup n app (parent_of app button) key setKey True seen))"
    by (cases button; cases key; cases setKey)
       (simp_all add: l l' raw_result_def coalesce_st_with_seen with_seen_def [of _ "Inr _"]
             split: option.splits)
  have "lookup_st (Suc n) app button key setKey isLookup seen
          = with_seen seen (lookup (Suc n) app button key setKey isLookup seen)"
    unfolding lookup_st.simps ex raw lookup_Suc by (rule finish_st_with_seen)
  moreover have "expand_st (Suc n) app button str sn = keep sn (expand (Suc n) app button str sn)"
    unfolding expand_st.simps expand_Suc by (rule replace_st_agrees) (rule l)
  ultimately show ?case by blast
qed

subsection \<open>The tests of the repository\<close>

text \<open>
  The assertions of \<open>test/lookup.test.js\<close> that end before the global map is read hold on the
  model, at the depth of the stack the call needs and at every greater one.
\<close>

lemma test_simple_expansions:
  "lookup (Suc (Suc (Suc (Suc (n))))) (makeApp []) (Some main1_button) None (Some (KStr ''i'')) False None
     = Inr (VStr (''i: '' @ DQ # ''x'' @ BSL # DQ # ''y'' @ [DQ]))"
  "lookup (Suc (Suc (Suc (Suc (n))))) (makeApp []) (Some main1_button) (Some P_command) None False None
     = Inr (VStr ''t: s%20s'')"
  "lookup (Suc (Suc (Suc (Suc (n))))) (makeApp []) (Some main1_button) None (Some (KNum (Fin 1))) False None
     = Inr (VStr '':main1-0:'')"
  "lookup (Suc (Suc (Suc (Suc (n))))) (makeApp []) (Some main1_button) None (Some (KStr ''x'')) False None
     = Inr (VStr '':s s:'')"
  by (simp_all add: model_defs builtin_defs fixture_defs main1_button_def)

lemma test_inherited_expansions:
  "lookup (Suc (Suc (Suc (Suc (Suc (Suc (Suc (Suc (Suc (Suc (Suc (n)))))))))))) (makeApp inherit_templates) (Some inherit_button) None (Some (KStr ''x'')) False None
     = Inr (VStr '':!:-[:!:]-{[:!:]}-(!)'')"
  "lookup (Suc (Suc (Suc (Suc (Suc (Suc (Suc (Suc (Suc (Suc (Suc (n)))))))))))) (makeApp inherit_templates) (Some inherit_button) None (Some (KNum (Fin 0))) False None
     = Inr (VStr ''!-a1:b2:!-b2:!'')"
  by (simp_all add: model_defs fixture_defs inherit_templates_def inherit_button_def)

lemma test_infinite_recursion:
  "lookup (Suc (Suc (Suc (Suc (Suc (Suc (Suc (Suc (Suc (n)))))))))) (makeApp recursion_templates) (Some recursion_button) None (Some (KStr ''x'')) False None
     = Inr (VStr ''x${x}x'')"
  "lookup (Suc (Suc (Suc (Suc (Suc (Suc (Suc (Suc (Suc (n)))))))))) (makeApp recursion_templates) (Some recursion_button) None (Some (KStr ''y'')) False None
     = Inr (VStr ''ya${y}ay'')"
  "lookup (Suc (Suc (Suc (Suc (Suc (Suc (Suc (Suc (Suc (n)))))))))) (makeApp recursion_templates) (Some recursion_button) None (Some (KStr ''z'')) False None
     = Inr (VStr ''zaab${z}baaz'')"
  "lookup (Suc (Suc (Suc (Suc (Suc (Suc (Suc (Suc (Suc (n)))))))))) (makeApp recursion_templates) (Some recursion_button) (Some P_proxyUrl) None False None
     = Inr (VStr ''url:zaab${z}baaz'')"
  by (simp_all add: model_defs fixture_defs recursion_templates_def recursion_button_def)

lemma recursion_chain: "chain_ends (Suc (Suc (Suc c))) (makeApp_globals recursion_templates) (Some recursion_button)"
  by (simp add: model_defs fixture_defs recursion_templates_def recursion_button_def)

section \<open>The claims\<close>

subsection \<open>C1: a key that is nowhere\<close>

text \<open>
  With a global map and an \<open>is\<close> chain that ends, the lookup of a key that is absent from the
  chain and from the map gives \<open>null\<close> (lemma \<open>lookup_absent_key_null\<close>); without a global map
  it throws (lemma \<open>lookup_absent_key_TypeError\<close>). So the test "should handle simple set and
  set-list lookup" holds with an empty global map: the key \<open>z\<close>, which the button has not,
  gives \<open>null\<close>.
\<close>

lemma lookup_absent_key_with_globals:
  "lookup (Suc (Suc n)) (makeApp_globals []) (Some s1_button) None (Some (KStr ''z'')) False None
     = Inr VNull"
  by (simp add: model_defs fixture_defs s1_button_def)

text \<open>
  C1. Claim: for every application, a lookup (not internal) of a \<open>set\<close> or \<open>setList\<close> key that
  is absent from the button, from its \<open>is\<close> chain and from the global map returns \<open>null\<close> and
  throws nothing. The application of the tests, \<open>makeApp({})\<close>, has no \<open>setGlobals\<close>, as
  \<open>ClientApp\<close> declares none. The button of the test has no parent and no key \<open>z\<close> in its
  \<open>set\<close>, and there is no value in a global map; the lookup of \<open>z\<close> throws a \<open>TypeError\<close>, at
  every depth of the stack that lets it run, where the test asserts \<open>null\<close>.
\<close>

theorem lookup_absent_key_throws:
  "chain_ends (Suc 0) (makeApp []) (Some s1_button)
   \<and> chain_absent (Suc 0) (makeApp []) (Some s1_button) (KStr ''z'')
   \<and> global_values (makeApp []) = []
   \<and> lookup (Suc (Suc n)) (makeApp []) (Some s1_button) None (Some (KStr ''z'')) False None
       = Inl TypeError"
  by (simp add: model_defs fixture_defs s1_button_def global_values_def)

subsection \<open>C2: a token whose value is null or empty\<close>

text \<open>
  C2 as stated fails: with \<open>set = {a: ""}\<close> the key \<open>a\<close> is not in the visited set, its value is
  the empty string, and \<open>expand\<close> of \<open>${a}\<close> is the empty string, not the token.
\<close>

theorem expand_empty_value_counterexample:
  "token_key (mk_token [] None ''a'') \<notin> {}
   \<and> lookup (Suc (Suc 0)) (makeApp []) (Some empty_a_button) None
         (Some (token_key (mk_token [] None ''a''))) False
         (Some (insert (token_key (mk_token [] None ''a'')) {})) = Inr (VStr [])
   \<and> expand (Suc (Suc (Suc 0))) (makeApp []) (Some empty_a_button) ''${a}'' {} = Inr []
   \<and> expand (Suc (Suc (Suc 0))) (makeApp []) (Some empty_a_button) ''${a}'' {} \<noteq> Inr ''${a}''"
  by (simp add: model_defs fixture_defs empty_a_button_def)

text \<open>
  C2, amended. For a token that is not escaped and whose key is not in the visited set: when
  the value looked up is \<open>null\<close>, the replacement is the text of the match, unchanged; when it
  is the empty string, the replacement is the empty string. Neither case throws. A text all
  of whose tokens are of the first kind is returned as it is.
\<close>

theorem expand_unresolved_token:
  "(tk_slash t = [] \<and> token_key t \<notin> seen
      \<and> lookup n app button None (Some (token_key t)) False (Some (insert (token_key t) seen))
          = Inr VNull
    \<longrightarrow> replace_token t seen
          (lookup n app button None (Some (token_key t)) False
             (Some (insert (token_key t) seen)))
        = Inr (tk_match t))
   \<and> (tk_slash t = [] \<and> token_key t \<notin> seen
      \<and> lookup n app button None (Some (token_key t)) False (Some (insert (token_key t) seen))
          = Inr (VStr [])
    \<longrightarrow> replace_token t seen
          (lookup n app button None (Some (token_key t)) False
             (Some (insert (token_key t) seen)))
        = Inr [])
   \<and> ((\<forall>u. Tok u \<in> set (tokenize str) \<longrightarrow>
           tk_slash u = [] \<and> token_key u \<notin> seen
           \<and> lookup n app button None (Some (token_key u)) False
                (Some (insert (token_key u) seen)) = Inr VNull)
    \<longrightarrow> expand (Suc n) app button str seen = Inr str)"
proof -
  have "expand (Suc n) app button str seen = Inr str"
    if "\<forall>u. Tok u \<in> set (tokenize str) \<longrightarrow>
           tk_slash u = [] \<and> token_key u \<notin> seen
           \<and> lookup n app button None (Some (token_key u)) False
                (Some (insert (token_key u) seen)) = Inr VNull"
    using that by (intro expand_unchanged) blast
  then show ?thesis by (simp add: replace_token_def)
qed

theorem expand_unresolved_token_witness:
  "tk_slash (mk_token [] None ''a'') = []
   \<and> token_key (mk_token [] None ''a'') \<notin> {}
   \<and> lookup (Suc (Suc 0)) (makeApp_globals []) (Some (plain_button ''p'')) None
         (Some (token_key (mk_token [] None ''a''))) False
         (Some (insert (token_key (mk_token [] None ''a'')) {})) = Inr VNull
   \<and> replace_token (mk_token [] None ''a'') {}
         (lookup (Suc (Suc 0)) (makeApp_globals []) (Some (plain_button ''p'')) None
            (Some (token_key (mk_token [] None ''a''))) False
            (Some (insert (token_key (mk_token [] None ''a'')) {}))) = Inr ''${a}''
   \<and> lookup (Suc (Suc 0)) (makeApp []) (Some empty_a_button) None
         (Some (token_key (mk_token [] None ''a''))) False
         (Some (insert (token_key (mk_token [] None ''a'')) {})) = Inr (VStr [])
   \<and> replace_token (mk_token [] None ''a'') {}
         (lookup (Suc (Suc 0)) (makeApp []) (Some empty_a_button) None
            (Some (token_key (mk_token [] None ''a''))) False
            (Some (insert (token_key (mk_token [] None ''a'')) {}))) = Inr []
   \<and> tokenize ''a ${a} and ${4}''
       = [Lit CHR ''a'', Lit CHR '' '', Tok (mk_token [] None ''a''), Lit CHR '' '',
          Lit CHR ''a'', Lit CHR ''n'', Lit CHR ''d'', Lit CHR '' '',
          Tok (mk_token [] None ''4'')]
   \<and> lookup (Suc (Suc 0)) (makeApp_globals []) (Some (plain_button ''p'')) None
         (Some (token_key (mk_token [] None ''4''))) False
         (Some (insert (token_key (mk_token [] None ''4'')) {})) = Inr VNull
   \<and> expand (Suc (Suc (Suc 0))) (makeApp_globals []) (Some (plain_button ''p''))
         ''a ${a} and ${4}'' {} = Inr ''a ${a} and ${4}''"
  using expand_unresolved_token [where t = "mk_token [] None ''a''" and seen = "{}"
          and n = "Suc (Suc 0)" and app = "makeApp_globals []"
          and button = "Some (plain_button ''p'')" and str = "''a ${a} and ${4}''"]
        expand_unresolved_token [where t = "mk_token [] None ''a''" and seen = "{}"
          and n = "Suc (Suc 0)" and app = "makeApp []" and button = "Some empty_a_button"]
  by (simp add: model_defs fixture_defs empty_a_button_def show_nat.simps digit_char_def)

subsection \<open>C3: an own value that is falsy\<close>

text \<open>
  C3 as stated fails: a button with \<open>showOutput: false\<close> whose template has
  \<open>showOutput: true\<close> keeps its own \<open>false\<close>.
\<close>

theorem lookup_own_false_counterexample:
  "get_prop quiet_button P_showOutput = Some (VBool False)
   \<and> parent_of (makeApp [(''T'', loud_template)]) (Some quiet_button) = Some loud_template
   \<and> lookup (Suc (Suc 0)) (makeApp [(''T'', loud_template)]) (Some loud_template)
         (Some P_showOutput) None True None = Inr (VBool True)
   \<and> lookup (Suc (Suc 0)) (makeApp [(''T'', loud_template)]) (Some quiet_button)
         (Some P_showOutput) None False None = Inr (VBool False)"
  by (simp add: model_defs fixture_defs quiet_button_def loud_template_def)

text \<open>
  C3, amended. In property mode the own value of the button is taken whenever it is
  defined, also when it is \<open>false\<close>, \<open>0\<close> or the empty string; only a value that is undefined
  sends the lookup to the \<open>is\<close> parent, whose internal lookup then stands for it, and that is
  \<open>null\<close> when there is no parent. The internal lookup returns the value taken as it is. The
  lookup that is not internal returns it as it is when it is not a string, and returns its
  expansion with the button when it is a string; the empty string expands to itself. Along a
  chain that ends, the internal lookup is the first defined value of the chain, or \<open>null\<close> if
  the chain has none.
\<close>

theorem lookup_property_own_value:
  "(get_prop b p = Some v \<longrightarrow> lookup (Suc n) app (Some b) (Some p) None True seen = Inr v)
   \<and> (get_prop b p = Some v \<and> (\<forall>s. v \<noteq> VStr s)
        \<longrightarrow> lookup (Suc n) app (Some b) (Some p) None False seen = Inr v)
   \<and> (get_prop b p = Some (VStr s)
        \<longrightarrow> lookup (Suc n) app (Some b) (Some p) None False seen
            = str_result (expand n app (Some b) s (seen_or seen None)))
   \<and> (get_prop b p = Some v \<and> (v = VBool False \<or> v = VNum 0 \<or> v = VStr [])
        \<longrightarrow> lookup (Suc (Suc n)) app (Some b) (Some p) None False seen = Inr v)
   \<and> (get_prop b p = None
        \<longrightarrow> lookup (Suc n) app (Some b) (Some p) None True seen
            = lookup n app (parent_of app (Some b)) (Some p) None True seen)
   \<and> (get_prop b p = None
        \<and> lookup n app (parent_of app (Some b)) (Some p) None True seen = Inr v
        \<and> (\<forall>s. v \<noteq> VStr s)
        \<longrightarrow> lookup (Suc n) app (Some b) (Some p) None False seen = Inr v)
   \<and> (get_prop b p = None
        \<and> lookup n app (parent_of app (Some b)) (Some p) None True seen = Inr (VStr s)
        \<longrightarrow> lookup (Suc n) app (Some b) (Some p) None False seen
            = str_result (expand n app (Some b) s (seen_or seen None)))
   \<and> (get_prop b p = None \<and> parent_of app (Some b) = None
        \<longrightarrow> lookup (Suc (Suc n)) app (Some b) (Some p) None isLookup seen = Inr VNull)
   \<and> (chain_ends c app button \<and> c < m
        \<longrightarrow> lookup m app button (Some p) None True seen
            = Inr (case chain_prop c app button p of Some w \<Rightarrow> w | None \<Rightarrow> VNull))"
proof -
  have own: "lookup (Suc n) app (Some b) (Some p) None isLookup seen
               = finish isLookup (\<lambda>s. expand n app (Some b) s (seen_or seen None)) (Inr v)"
    if "get_prop b p = Some v" for v isLookup
    using that unfolding lookup_Suc by (simp add: raw_result_def)
  have inh: "lookup (Suc n) app (Some b) (Some p) None isLookup seen
               = finish isLookup (\<lambda>s. expand n app (Some b) s (seen_or seen None))
                   (lookup n app (parent_of app (Some b)) (Some p) None True seen)"
    if "get_prop b p = None" for isLookup
    using that unfolding lookup_Suc by (simp add: raw_result_def)
  have fin_int: "finish True ex r = r" for ex r
    by (cases r) (auto simp add: finish_def split: jsval.splits)
  have fin_val: "finish False ex (Inr w) = Inr w" if "\<forall>s. w \<noteq> VStr s" for ex w
    using that by (cases w) (simp_all add: finish_def)
  have fin_str: "finish False ex (Inr (VStr t)) = str_result (ex t)" for ex t
    by (simp add: finish_def str_result_def)
  have c1: "get_prop b p = Some v \<longrightarrow> lookup (Suc n) app (Some b) (Some p) None True seen = Inr v"
    using own [of v True] by (simp only: fin_int) blast
  have c2: "get_prop b p = Some v \<and> (\<forall>s. v \<noteq> VStr s)
        \<longrightarrow> lookup (Suc n) app (Some b) (Some p) None False seen = Inr v"
    using own [of v False] fin_val [of v] by (simp del: lookup.simps)
  have c3: "get_prop b p = Some (VStr s)
        \<longrightarrow> lookup (Suc n) app (Some b) (Some p) None False seen
            = str_result (expand n app (Some b) s (seen_or seen None))"
    using own [of "VStr s" False] by (simp only: fin_str) blast
  have c4: "get_prop b p = Some v \<and> (v = VBool False \<or> v = VNum 0 \<or> v = VStr [])
        \<longrightarrow> lookup (Suc (Suc n)) app (Some b) (Some p) None False seen = Inr v"
    by (auto simp add: Let_def split: sum.splits jsval.splits)
  have c5: "get_prop b p = None
        \<longrightarrow> lookup (Suc n) app (Some b) (Some p) None True seen
            = lookup n app (parent_of app (Some b)) (Some p) None True seen"
    using inh [of True] by (simp only: fin_int) blast
  have c6: "get_prop b p = None
        \<and> lookup n app (parent_of app (Some b)) (Some p) None True seen = Inr v
        \<and> (\<forall>s. v \<noteq> VStr s)
        \<longrightarrow> lookup (Suc n) app (Some b) (Some p) None False seen = Inr v"
    using inh [of False] fin_val [of v] by (simp del: lookup.simps)
  have c7: "get_prop b p = None
        \<and> lookup n app (parent_of app (Some b)) (Some p) None True seen = Inr (VStr s)
        \<longrightarrow> lookup (Suc n) app (Some b) (Some p) None False seen
            = str_result (expand n app (Some b) s (seen_or seen None))"
    using inh [of False] by (simp del: lookup.simps add: fin_str)
  have c8: "get_prop b p = None \<and> parent_of app (Some b) = None
        \<longrightarrow> lookup (Suc (Suc n)) app (Some b) (Some p) None isLookup seen = Inr VNull"
    by (auto simp add: Let_def split: sum.splits jsval.splits)
  have c9: "chain_ends c app button \<and> c < m
        \<longrightarrow> lookup m app button (Some p) None True seen
            = Inr (case chain_prop c app button p of Some w \<Rightarrow> w | None \<Rightarrow> VNull)"
    using lookup_chain_prop by blast
  from c1 c2 c3 c4 c5 c6 c7 c8 c9 show ?thesis by blast
qed

theorem lookup_property_own_value_witness:
  "get_prop quiet_button P_showOutput = Some (VBool False)
   \<and> lookup (Suc 0) (makeApp [(''T'', loud_template)]) (Some quiet_button) (Some P_showOutput)
         None True None = Inr (VBool False)
   \<and> lookup (Suc 0) (makeApp [(''T'', loud_template)]) (Some quiet_button) (Some P_showOutput)
         None False None = Inr (VBool False)
   \<and> get_prop tpl_T P_proxyUrl = Some (VStr ''${x}'')
   \<and> lookup (Suc (Suc (Suc (Suc 0)))) (makeApp [(''T'', tpl_T)]) (Some tpl_T) (Some P_proxyUrl)
         None False None
       = str_result (expand (Suc (Suc (Suc 0))) (makeApp [(''T'', tpl_T)]) (Some tpl_T) ''${x}''
           (seen_or None None))
   \<and> expand (Suc (Suc (Suc 0))) (makeApp [(''T'', tpl_T)]) (Some tpl_T) ''${x}''
         (seen_or None None) = Inr ''t''
   \<and> get_prop quiet_button P_command = None
   \<and> lookup (Suc (Suc 0)) (makeApp [(''T'', loud_template)]) (Some quiet_button) (Some P_command)
         None True None
       = lookup (Suc 0) (makeApp [(''T'', loud_template)])
           (parent_of (makeApp [(''T'', loud_template)]) (Some quiet_button)) (Some P_command)
           None True None
   \<and> get_prop (quiet_button \<lparr> btn_showOutput := None \<rparr>) P_showOutput = None
   \<and> lookup (Suc 0) (makeApp [(''T'', loud_template)])
         (parent_of (makeApp [(''T'', loud_template)])
            (Some (quiet_button \<lparr> btn_showOutput := None \<rparr>)))
         (Some P_showOutput) None True None = Inr (VBool True)
   \<and> lookup (Suc (Suc 0)) (makeApp [(''T'', loud_template)])
         (Some (quiet_button \<lparr> btn_showOutput := None \<rparr>)) (Some P_showOutput) None False None
       = Inr (VBool True)
   \<and> get_prop btn_B P_proxyUrl = None
   \<and> lookup (Suc 0) (makeApp [(''T'', tpl_T)]) (parent_of (makeApp [(''T'', tpl_T)]) (Some btn_B))
         (Some P_proxyUrl) None True None = Inr (VStr ''${x}'')
   \<and> lookup (Suc (Suc 0)) (makeApp [(''T'', tpl_T)]) (Some btn_B) (Some P_proxyUrl) None False None
       = str_result (expand (Suc 0) (makeApp [(''T'', tpl_T)]) (Some btn_B) ''${x}''
           (seen_or None None))
   \<and> get_prop loud_template P_command = None
   \<and> parent_of (makeApp [(''T'', loud_template)]) (Some loud_template) = None
   \<and> lookup (Suc (Suc 0)) (makeApp [(''T'', loud_template)]) (Some loud_template)
         (Some P_command) None False None = Inr VNull
   \<and> chain_ends (Suc (Suc 0)) (makeApp [(''T'', loud_template)]) (Some quiet_button)
   \<and> Suc (Suc 0) < Suc (Suc (Suc 0))
   \<and> chain_prop (Suc (Suc 0)) (makeApp [(''T'', loud_template)]) (Some quiet_button) P_text
       = Some (VStr ''quiet'')
   \<and> lookup (Suc (Suc (Suc 0))) (makeApp [(''T'', loud_template)]) (Some quiet_button)
         (Some P_text) None True None = Inr (VStr ''quiet'')"
  using lookup_property_own_value [where b = quiet_button and p = P_showOutput
          and v = "VBool False" and n = 0 and app = "makeApp [(''T'', loud_template)]"
          and seen = None]
        lookup_property_own_value [where b = tpl_T and p = P_proxyUrl and s = "''${x}''"
          and n = "Suc (Suc (Suc 0))" and app = "makeApp [(''T'', tpl_T)]" and seen = None]
        lookup_property_own_value [where b = quiet_button and p = P_command and n = "Suc 0"
          and app = "makeApp [(''T'', loud_template)]" and seen = None]
        lookup_property_own_value [where b = "quiet_button \<lparr> btn_showOutput := None \<rparr>"
          and p = P_showOutput and v = "VBool True" and n = "Suc 0"
          and app = "makeApp [(''T'', loud_template)]" and seen = None]
        lookup_property_own_value [where b = btn_B and p = P_proxyUrl and s = "''${x}''"
          and n = "Suc 0" and app = "makeApp [(''T'', tpl_T)]" and seen = None]
        lookup_property_own_value [where b = loud_template and p = P_command and n = 0
          and app = "makeApp [(''T'', loud_template)]" and seen = None and isLookup = False]
        lookup_property_own_value [where p = P_text and c = "Suc (Suc 0)"
          and m = "Suc (Suc (Suc 0))" and button = "Some quiet_button"
          and app = "makeApp [(''T'', loud_template)]" and seen = None]
  by (simp add: model_defs fixture_defs quiet_button_def loud_template_def tpl_T_def btn_B_def
      str_result_def seen_or_def)

subsection \<open>C4: a property inherited from a template\<close>

text \<open>
  C4 as stated fails: \<open>proxyUrl\<close> is undefined on B and is \<open>${x}\<close> on the template T; B has
  \<open>set = {x: "b"}\<close> and T has \<open>set = {x: "t"}\<close>. The lookup on B gives \<open>b\<close>, the lookup on T
  gives \<open>t\<close>: each expands the inherited text with its own button.
\<close>

theorem lookup_inherited_context_counterexample:
  "parent_of (makeApp [(''T'', tpl_T)]) (Some btn_B) = Some tpl_T
   \<and> get_prop btn_B P_proxyUrl = None
   \<and> get_prop tpl_T P_proxyUrl = Some (VStr ''${x}'')
   \<and> lookup (Suc (Suc (Suc (Suc (Suc 0))))) (makeApp [(''T'', tpl_T)]) (Some btn_B)
         (Some P_proxyUrl) None False None = Inr (VStr ''b'')
   \<and> lookup (Suc (Suc (Suc (Suc (Suc 0))))) (makeApp [(''T'', tpl_T)]) (Some tpl_T)
         (Some P_proxyUrl) None False None = Inr (VStr ''t'')"
  by (simp add: model_defs fixture_defs tpl_T_def btn_B_def)

text \<open>
  C4, amended. Let the parent of B be T, the property undefined on B and \<open>v\<close> on T. The
  internal lookups on B and on T both give \<open>v\<close>. When \<open>v\<close> is not a string, so do the lookups
  that are not internal. When \<open>v\<close> is a string, the lookup on B is that string expanded with
  the button B, and the lookup on T is that string expanded with the button T.
\<close>

theorem lookup_inherited_property:
  assumes "parent_of app (Some B) = Some T" and "get_prop B p = None"
    and "get_prop T p = Some v"
  shows "lookup (Suc (Suc n)) app (Some B) (Some p) None True seen = Inr v
       \<and> lookup (Suc n) app (Some T) (Some p) None True seen = Inr v
       \<and> ((\<forall>s. v \<noteq> VStr s)
            \<longrightarrow> lookup (Suc (Suc n)) app (Some B) (Some p) None False seen = Inr v
              \<and> lookup (Suc n) app (Some T) (Some p) None False seen = Inr v)
       \<and> (\<forall>s. v = VStr s
            \<longrightarrow> lookup (Suc (Suc n)) app (Some B) (Some p) None False None
                  = str_result (expand (Suc n) app (Some B) s {KStr []})
              \<and> lookup (Suc (Suc n)) app (Some T) (Some p) None False None
                  = str_result (expand (Suc n) app (Some T) s {KStr []}))"
  using assms by (auto simp add: Let_def str_result_def split: sum.splits jsval.splits)

theorem lookup_inherited_property_witness:
  "parent_of (makeApp [(''T'', tpl_T)]) (Some btn_B) = Some tpl_T
   \<and> get_prop btn_B P_proxyUrl = None
   \<and> get_prop tpl_T P_proxyUrl = Some (VStr ''${x}'')
   \<and> lookup (Suc (Suc 0)) (makeApp [(''T'', tpl_T)]) (Some btn_B) (Some P_proxyUrl) None True None
       = Inr (VStr ''${x}'')
   \<and> lookup (Suc (Suc (Suc (Suc 0)))) (makeApp [(''T'', tpl_T)]) (Some btn_B) (Some P_proxyUrl)
         None False None
       = str_result (expand (Suc (Suc (Suc 0))) (makeApp [(''T'', tpl_T)]) (Some btn_B) ''${x}''
           {KStr []})
   \<and> parent_of (makeApp [(''T'', loud_template)]) (Some quiet_button) = Some loud_template
   \<and> get_prop quiet_button P_column = None
   \<and> get_prop loud_template P_showOutput = Some (VBool True)
   \<and> get_prop (quiet_button \<lparr> btn_showOutput := None \<rparr>) P_showOutput = None
   \<and> lookup (Suc (Suc 0)) (makeApp [(''T'', loud_template)])
         (Some (quiet_button \<lparr> btn_showOutput := None \<rparr>)) (Some P_showOutput) None False None
       = Inr (VBool True)"
  using lookup_inherited_property [where app = "makeApp [(''T'', tpl_T)]" and B = btn_B
          and T = tpl_T and p = P_proxyUrl and v = "VStr ''${x}''" and n = "Suc (Suc 0)"
          and seen = None]
        lookup_inherited_property [where app = "makeApp [(''T'', loud_template)]"
          and B = "quiet_button \<lparr> btn_showOutput := None \<rparr>" and T = loud_template
          and p = P_showOutput and v = "VBool True" and n = 0 and seen = None]
  by (simp add: model_defs fixture_defs tpl_T_def btn_B_def quiet_button_def loud_template_def
      str_result_def)

subsection \<open>C5: a token whose key is in the visited set\<close>

text \<open>
  C5. A token that is not escaped and whose key is in the visited set is replaced by the
  text of its match, whatever a lookup would give; a text all of whose tokens are such is
  returned as it is. For a button with \<open>set = {x: "x${x}x"}\<close> (under any application, and
  whatever else the button holds) the lookup of the \<open>set\<close> key \<open>x\<close>, not internal, returns
  \<open>x${x}x\<close> at every depth of the stack from two calls on: the key \<open>x\<close> is the visited set of
  the expansion.
\<close>

theorem expand_seen_token_verbatim:
  "(tk_slash t = [] \<and> token_key t \<in> seen \<longrightarrow> replace_token t seen looked = Inr (tk_match t))
   \<and> ((\<forall>u. Tok u \<in> set (tokenize str) \<longrightarrow> tk_slash u = [] \<and> token_key u \<in> seen)
        \<longrightarrow> expand (Suc n) app button str seen = Inr str)
   \<and> (btn_set b = Some m \<and> map_of m ''x'' = Some ''x${x}x''
        \<longrightarrow> lookup (Suc (Suc n)) app (Some b) None (Some (KStr ''x'')) False None
              = Inr (VStr ''x${x}x''))"
proof -
  have "expand (Suc n) app button str seen = Inr str"
    if "\<forall>u. Tok u \<in> set (tokenize str) \<longrightarrow> tk_slash u = [] \<and> token_key u \<in> seen"
    using that by (intro expand_unchanged) blast
  moreover have "btn_set b = Some m \<and> map_of m ''x'' = Some ''x${x}x''
        \<longrightarrow> lookup (Suc (Suc n)) app (Some b) None (Some (KStr ''x'')) False None
              = Inr (VStr ''x${x}x'')"
    by (simp add: model_defs)
  ultimately show ?thesis by (simp add: replace_token_def)
qed

theorem expand_seen_token_verbatim_witness:
  "tk_slash (mk_token [] None ''x'') = []
   \<and> token_key (mk_token [] None ''x'') \<in> {KStr ''x''}
   \<and> replace_token (mk_token [] None ''x'') {KStr ''x''} (Inl StackOverflow) = Inr ''${x}''
   \<and> tokenize ''x${x}x'' = [Lit CHR ''x'', Tok (mk_token [] None ''x''), Lit CHR ''x'']
   \<and> expand (Suc 0) (makeApp []) (Some self_button) ''x${x}x'' {KStr ''x''} = Inr ''x${x}x''
   \<and> btn_set self_button = Some [(''x'', ''x${x}x'')]
   \<and> map_of [(''x'', ''x${x}x'')] ''x'' = Some ''x${x}x''
   \<and> lookup (Suc (Suc 0)) (makeApp []) (Some self_button) None (Some (KStr ''x'')) False None
       = Inr (VStr ''x${x}x'')"
  using expand_seen_token_verbatim [where t = "mk_token [] None ''x''" and seen = "{KStr ''x''}"
          and looked = "Inl StackOverflow" and b = self_button and m = "[(''x'', ''x${x}x'')]"
          and n = 0 and app = "makeApp []" and button = "Some self_button"
          and str = "''x${x}x''"]
  by (simp add: model_defs fixture_defs self_button_def)

subsection \<open>C6: expansion ends and does not throw\<close>

text \<open>
  With a global map, the test "should perform simple expansions" holds: the tokens \<open>${a}\<close>
  and \<open>${4}\<close>, which nothing resolves, stay as they are.
\<close>

lemma expand_main1_with_globals:
  "expand (Suc (Suc (Suc n))) (makeApp_globals []) (Some main1_button) main1_proxyUrl {}
     = Inr (''hello main1-z main1-0 ${a} ${4} ${z} $'' @ BSL # BSL # ''{0}'')"
  by (simp add: model_defs fixture_defs main1_button_def main1_proxyUrl_def)

text \<open>
  With a global map and an \<open>is\<close> chain that ends, \<open>expand\<close> ends with one string at every
  depth of the stack from \<open>expand_fuel\<close> on (lemma \<open>expand_total\<close>); so it does on the button
  of the test "should prevent infinite recursion", whose values refer to each other, for
  every text and every visited set.
\<close>

lemma expand_total_recursion_test:
  "\<exists>r. \<forall>n \<ge> expand_fuel (Suc (Suc (Suc 0))) (makeApp_globals recursion_templates)
                   (Some recursion_button).
         expand n (makeApp_globals recursion_templates) (Some recursion_button) str seen = Inr r"
proof (rule expand_total)
  show "setGlobals (makeApp_globals recursion_templates) = Some []"
    by (simp add: makeApp_globals_def)
  show "chain_ends (Suc (Suc (Suc 0))) (makeApp_globals recursion_templates)
          (Some recursion_button)"
    by (simp add: model_defs fixture_defs recursion_templates_def recursion_button_def)
qed

text \<open>
  C6. Claim: for every application whose templates are acyclic, every button and every text,
  \<open>expand\<close> ends with a string and throws nothing. The application of the tests has no
  templates at all and no \<open>setGlobals\<close>; on the \<open>proxyUrl\<close> of the test "should perform simple
  expansions" \<open>expand\<close> throws a \<open>TypeError\<close> at the token \<open>${a}\<close>, which nothing resolves,
  where the test expects the token to be left in the text.
\<close>

theorem expand_unresolved_throws:
  "expand (Suc (Suc (Suc n))) (makeApp []) (Some main1_button) main1_proxyUrl {} = Inl TypeError"
  by (simp add: model_defs fixture_defs main1_button_def main1_proxyUrl_def)

subsection \<open>C7: the precedence of a \<open>set\<close> key\<close>

text \<open>
  For a string key the internal lookup takes the button's own \<open>set[key]\<close> when there is
  one; otherwise the string that the internal lookup on the \<open>is\<close> parent gives; otherwise,
  the parent giving \<open>null\<close>, what the global map gives, which is its entry for the key, and
  \<open>null\<close> when it has none. Along a chain that ends, the lookup is the first value of the key
  in the chain, and what the global map gives if the chain has none. With
  \<open>B.set = {a: "x"}\<close>, \<open>B.is = T\<close> and \<open>T.set = {a: "y", b: "z"}\<close> the lookup of \<open>a\<close> on B is
  \<open>x\<close> and the lookup of \<open>b\<close> on B is \<open>z\<close>, with any global map and with none.
\<close>

lemma lookup_set_tiers:
  "(own_set b (KStr k) = Some v
      \<longrightarrow> lookup (Suc n) app (Some b) None (Some (KStr k)) True seen = Inr (VStr v))
   \<and> (own_set b (KStr k) = None
        \<and> lookup n app (parent_of app (Some b)) None (Some (KStr k)) True seen = Inr (VStr v)
      \<longrightarrow> lookup (Suc n) app (Some b) None (Some (KStr k)) True seen = Inr (VStr v))
   \<and> (own_set b (KStr k) = None
        \<and> lookup n app (parent_of app (Some b)) None (Some (KStr k)) True seen = Inr VNull
      \<longrightarrow> lookup (Suc n) app (Some b) None (Some (KStr k)) True seen
            = global_value app (KStr k))
   \<and> (setGlobals app = Some g \<and> map_of g k = Some v
      \<longrightarrow> global_value app (KStr k) = Inr (VStr v))
   \<and> (setGlobals app = Some g \<and> map_of g k = None
      \<longrightarrow> global_value app (KStr k) = Inr VNull)
   \<and> (chain_ends c app (Some b) \<and> c < m
      \<longrightarrow> lookup m app (Some b) None (Some (KStr k)) True seen
            = (case chain_set c app (Some b) (KStr k) of
                 Some w \<Rightarrow> Inr (VStr w)
               | None \<Rightarrow> global_value app (KStr k)))
   \<and> lookup (Suc (Suc n)) \<lparr> templates = Some [(''T'', ex_T)], setGlobals = gl \<rparr> (Some ex_B) None
        (Some (KStr ''a'')) False None = Inr (VStr ''x'')
   \<and> lookup (Suc (Suc n)) \<lparr> templates = Some [(''T'', ex_T)], setGlobals = gl \<rparr> (Some ex_B) None
        (Some (KStr ''b'')) False None = Inr (VStr ''z'')"
proof -
  have tiers:
    "(own_set b (KStr k) = Some v
        \<longrightarrow> lookup (Suc n) app (Some b) None (Some (KStr k)) True seen = Inr (VStr v))
     \<and> (own_set b (KStr k) = None
          \<and> lookup n app (parent_of app (Some b)) None (Some (KStr k)) True seen = Inr (VStr v)
        \<longrightarrow> lookup (Suc n) app (Some b) None (Some (KStr k)) True seen = Inr (VStr v))
     \<and> (own_set b (KStr k) = None
          \<and> lookup n app (parent_of app (Some b)) None (Some (KStr k)) True seen = Inr VNull
        \<longrightarrow> lookup (Suc n) app (Some b) None (Some (KStr k)) True seen
              = global_value app (KStr k))"
  proof (cases "global_value app (KStr k)")
    case (Inl e)
    then show ?thesis by (simp add: lookup_set_Suc finish_def coalesce_def opt_str_def)
  next
    case (Inr w)
    have "is_text (global_value app (KStr k))" by simp
    with Inr have "w = VNull \<or> (\<exists>s. w = VStr s)"
      by (cases w) (simp_all add: is_text_def)
    with Inr show ?thesis
      by (auto simp add: lookup_set_Suc finish_def coalesce_def opt_str_def)
  qed
  have globals:
    "(setGlobals app = Some g \<and> map_of g k = Some v
        \<longrightarrow> global_value app (KStr k) = Inr (VStr v))
     \<and> (setGlobals app = Some g \<and> map_of g k = None
        \<longrightarrow> global_value app (KStr k) = Inr VNull)"
    by (simp add: global_value_def opt_str_def)
  have chain:
    "chain_ends c app (Some b) \<and> c < m
      \<longrightarrow> lookup m app (Some b) None (Some (KStr k)) True seen
            = (case chain_set c app (Some b) (KStr k) of
                 Some w \<Rightarrow> Inr (VStr w)
               | None \<Rightarrow> global_value app (KStr k))"
    using lookup_chain_set by blast
  have examples:
    "lookup (Suc (Suc n)) \<lparr> templates = Some [(''T'', ex_T)], setGlobals = gl \<rparr> (Some ex_B) None
        (Some (KStr ''a'')) False None = Inr (VStr ''x'')
     \<and> lookup (Suc (Suc n)) \<lparr> templates = Some [(''T'', ex_T)], setGlobals = gl \<rparr> (Some ex_B)
        None (Some (KStr ''b'')) False None = Inr (VStr ''z'')"
    by (simp add: model_defs fixture_defs ex_T_def ex_B_def)
  from tiers globals chain examples show ?thesis by blast
qed

lemma lookup_set_tiers_example:
  "own_set ex_B (KStr ''a'') = Some ''x''
   \<and> lookup (Suc (Suc 0)) \<lparr> templates = Some [(''T'', ex_T)], setGlobals = Some [(''g'', ''G'')] \<rparr>
         (Some ex_B) None (Some (KStr ''a'')) True None = Inr (VStr ''x'')
   \<and> own_set ex_B (KStr ''b'') = None
   \<and> lookup (Suc 0) \<lparr> templates = Some [(''T'', ex_T)], setGlobals = Some [(''g'', ''G'')] \<rparr>
         (parent_of \<lparr> templates = Some [(''T'', ex_T)], setGlobals = Some [(''g'', ''G'')] \<rparr>
            (Some ex_B))
         None (Some (KStr ''b'')) True None = Inr (VStr ''z'')
   \<and> lookup (Suc (Suc 0)) \<lparr> templates = Some [(''T'', ex_T)], setGlobals = Some [(''g'', ''G'')] \<rparr>
         (Some ex_B) None (Some (KStr ''b'')) True None = Inr (VStr ''z'')
   \<and> own_set ex_T (KStr ''g'') = None
   \<and> lookup (Suc 0) \<lparr> templates = Some [(''T'', ex_T)], setGlobals = Some [(''g'', ''G'')] \<rparr>
         (parent_of \<lparr> templates = Some [(''T'', ex_T)], setGlobals = Some [(''g'', ''G'')] \<rparr>
            (Some ex_T))
         None (Some (KStr ''g'')) True None = Inr VNull
   \<and> lookup (Suc (Suc 0)) \<lparr> templates = Some [(''T'', ex_T)], setGlobals = Some [(''g'', ''G'')] \<rparr>
         (Some ex_T) None (Some (KStr ''g'')) True None
       = global_value \<lparr> templates = Some [(''T'', ex_T)], setGlobals = Some [(''g'', ''G'')] \<rparr>
           (KStr ''g'')
   \<and> map_of [(''g'', ''G'')] ''g'' = Some ''G''
   \<and> global_value \<lparr> templates = Some [(''T'', ex_T)], setGlobals = Some [(''g'', ''G'')] \<rparr>
         (KStr ''g'') = Inr (VStr ''G'')
   \<and> map_of [(''g'', ''G'')] ''h'' = None
   \<and> global_value \<lparr> templates = Some [(''T'', ex_T)], setGlobals = Some [(''g'', ''G'')] \<rparr>
         (KStr ''h'') = Inr VNull
   \<and> chain_ends (Suc (Suc 0))
         \<lparr> templates = Some [(''T'', ex_T)], setGlobals = Some [(''g'', ''G'')] \<rparr> (Some ex_B)
   \<and> Suc (Suc 0) < Suc (Suc (Suc 0))
   \<and> chain_set (Suc (Suc 0))
         \<lparr> templates = Some [(''T'', ex_T)], setGlobals = Some [(''g'', ''G'')] \<rparr> (Some ex_B)
         (KStr ''b'') = Some ''z''
   \<and> lookup (Suc (Suc (Suc 0)))
         \<lparr> templates = Some [(''T'', ex_T)], setGlobals = Some [(''g'', ''G'')] \<rparr> (Some ex_B)
         None (Some (KStr ''b'')) True None = Inr (VStr ''z'')"
  using lookup_set_tiers [where b = ex_B and k = "''a''" and v = "''x''" and n = "Suc 0"
          and app = "\<lparr> templates = Some [(''T'', ex_T)], setGlobals = Some [(''g'', ''G'')] \<rparr>"
          and seen = None]
        lookup_set_tiers [where b = ex_B and k = "''b''" and v = "''z''" and n = "Suc 0"
          and app = "\<lparr> templates = Some [(''T'', ex_T)], setGlobals = Some [(''g'', ''G'')] \<rparr>"
          and seen = None]
        lookup_set_tiers [where b = ex_T and k = "''g''" and v = "''G''" and n = "Suc 0"
          and app = "\<lparr> templates = Some [(''T'', ex_T)], setGlobals = Some [(''g'', ''G'')] \<rparr>"
          and seen = None and g = "[(''g'', ''G'')]"]
        lookup_set_tiers [where k = "''h''"
          and app = "\<lparr> templates = Some [(''T'', ex_T)], setGlobals = Some [(''g'', ''G'')] \<rparr>"
          and g = "[(''g'', ''G'')]"]
        lookup_set_tiers [where k = "''b''" and b = ex_B and c = "Suc (Suc 0)"
          and m = "Suc (Suc (Suc 0))" and seen = None
          and app = "\<lparr> templates = Some [(''T'', ex_T)], setGlobals = Some [(''g'', ''G'')] \<rparr>"]
  by (simp add: model_defs fixture_defs ex_T_def ex_B_def)

text \<open>
  C7. Claim: the precedence of a \<open>set\<close> key is the button's own \<open>set[key]\<close>, then the \<open>is\<close>
  chain, then the global map, then \<open>null\<close>; with \<open>B.set = {a: "x"}\<close>, \<open>B.is = T\<close> and
  \<open>T.set = {a: "y", b: "z"}\<close> the key \<open>a\<close> on B gives \<open>x\<close> and the key \<open>b\<close> gives \<open>z\<close>. On the
  application of the tests, \<open>makeApp\<close> with the template T, the two lookups of the claim give
  \<open>x\<close> and \<open>z\<close>. The key \<open>c\<close> is in neither button and there is no value in a global map: the
  claim's last tier is \<open>null\<close>, and the lookup throws a \<open>TypeError\<close>, internal or not, at every
  depth of the stack that lets it run.
\<close>

theorem lookup_set_precedence_throws:
  "lookup (Suc (Suc n)) (makeApp [(''T'', ex_T)]) (Some ex_B) None (Some (KStr ''a'')) False None
     = Inr (VStr ''x'')
   \<and> lookup (Suc (Suc n)) (makeApp [(''T'', ex_T)]) (Some ex_B) None (Some (KStr ''b''))
        False None = Inr (VStr ''z'')
   \<and> parent_of (makeApp [(''T'', ex_T)]) (Some ex_B) = Some ex_T
   \<and> parent_of (makeApp [(''T'', ex_T)]) (Some ex_T) = None
   \<and> chain_absent (Suc (Suc 0)) (makeApp [(''T'', ex_T)]) (Some ex_B) (KStr ''c'')
   \<and> global_values (makeApp [(''T'', ex_T)]) = []
   \<and> lookup (Suc (Suc (Suc n))) (makeApp [(''T'', ex_T)]) (Some ex_B) None (Some (KStr ''c''))
        isLookup None = Inl TypeError"
  by (simp add: model_defs fixture_defs ex_T_def ex_B_def global_values_def)

subsection \<open>C8: escaped tokens\<close>

text \<open>
  C8. A token with one backslash or more before its brace is not expanded: its replacement is
  the dollar sign, the backslashes less one, and the body in braces as it stood, whatever a
  lookup would give. For a key \<open>k\<close> of word characters, with or without a function \<open>fn\<close> of
  word characters before it, one pass over the token escaped \<open>m + 1\<close> times gives the token
  escaped \<open>m\<close> times, and \<open>N\<close> passes over the token escaped \<open>N\<close> times give the token not
  escaped. In particular a pass over \<open>$\{z}\<close> gives \<open>${z}\<close>, and a pass over \<open>$\\{0}\<close> gives \<open>$\{0}\<close>.
\<close>

theorem escape_peeling:
  "(tk_slash t \<noteq> [] \<longrightarrow>
      replace_token t seen looked
        = Inr (CHR ''$'' # tl (tk_slash t) @ CHR ''{'' # tk_body t @ ''}''))
   \<and> (word k \<and> (case fn of None \<Rightarrow> True | Some f \<Rightarrow> word f) \<longrightarrow>
        expand (Suc n) app button (escaped_token (Suc m) fn k) seen = Inr (escaped_token m fn k)
        \<and> expand_passes N (Suc n) app button seen (escaped_token N fn k)
            = Inr (escaped_token 0 fn k))
   \<and> expand (Suc n) app button (CHR ''$'' # BSL # ''{z}'') seen = Inr ''${z}''
   \<and> expand (Suc n) app button (CHR ''$'' # BSL # BSL # ''{0}'') seen
       = Inr (CHR ''$'' # BSL # ''{0}'')"
proof -
  have a: "tk_slash t \<noteq> [] \<longrightarrow>
      replace_token t seen looked
        = Inr (CHR ''$'' # tl (tk_slash t) @ CHR ''{'' # tk_body t @ ''}'')"
    by (simp add: replace_token_def)
  have b: "word k \<and> (case fn of None \<Rightarrow> True | Some f \<Rightarrow> word f) \<longrightarrow>
        expand (Suc n) app button (escaped_token (Suc m) fn k) seen = Inr (escaped_token m fn k)
        \<and> expand_passes N (Suc n) app button seen (escaped_token N fn k)
            = Inr (escaped_token 0 fn k)"
    using expand_escaped_once expand_passes_escaped by blast
  have wz: "word ''z''" and w0: "word ''0''"
    by (simp_all add: word_def word_char_def)
  have c: "expand (Suc n) app button (CHR ''$'' # BSL # ''{z}'') seen = Inr ''${z}''"
    using expand_escaped_once [of "''z''" None n app button 0 seen] wz
    by (simp add: escaped_token_def token_body_def)
  have d: "expand (Suc n) app button (CHR ''$'' # BSL # BSL # ''{0}'') seen
             = Inr (CHR ''$'' # BSL # ''{0}'')"
    using expand_escaped_once [of "''0''" None n app button "Suc 0" seen] w0
    by (simp add: escaped_token_def token_body_def)
  from a b c d show ?thesis by blast
qed

theorem escape_peeling_witness:
  "tk_slash (mk_token [BSL] (Some ''urlencode'') ''z'') \<noteq> []
   \<and> replace_token (mk_token [BSL] (Some ''urlencode'') ''z'') {} (Inl StackOverflow)
       = Inr ''${urlencode:z}''
   \<and> word ''z''
   \<and> word ''urlencode''
   \<and> expand (Suc 0) (makeApp []) None (CHR ''$'' # BSL # BSL # BSL # ''{urlencode:z}'') {}
       = Inr (CHR ''$'' # BSL # BSL # ''{urlencode:z}'')
   \<and> expand_passes (Suc (Suc (Suc 0))) (Suc 0) (makeApp []) None {}
         (CHR ''$'' # BSL # BSL # BSL # ''{urlencode:z}'')
       = Inr ''${urlencode:z}''"
  using escape_peeling [where t = "mk_token [BSL] (Some ''urlencode'') ''z''" and seen = "{}"
          and looked = "Inl StackOverflow" and k = "''z''" and fn = "Some ''urlencode''"
          and n = 0 and app = "makeApp []" and button = None and m = "Suc (Suc 0)"
          and N = "Suc (Suc (Suc 0))"]
  by (simp add: model_defs escaped_token_def word_def)

subsection \<open>C9: numeric keys\<close>

text \<open>
  C9 as stated fails: the body of the token \<open>${urlencode:0}\<close> is \<open>urlencode:0\<close>, which is not a
  number, yet its key is the number 0, and on a button that has \<open>set["0"]\<close>,
  \<open>set["urlencode:0"]\<close> and \<open>setList[0]\<close> the token is replaced from \<open>setList[0]\<close>.
\<close>

theorem numeric_body_counterexample:
  "tokenize ''${urlencode:0}'' = [Tok (mk_token [] (Some ''urlencode'') ''0'')]
   \<and> tk_body (mk_token [] (Some ''urlencode'') ''0'') = ''urlencode:0''
   \<and> js_Number ''urlencode:0'' = None
   \<and> token_key (mk_token [] (Some ''urlencode'') ''0'') = KNum (Fin 0)
   \<and> expand (Suc (Suc (Suc 0))) (makeApp []) (Some prefixed_zero_button) ''${urlencode:0}'' {}
       = Inr ''from%20setList''"
  by (simp add: model_defs builtin_defs fixture_defs prefixed_zero_button_def)

text \<open>
  C9, amended. The key of a token is its body without the transform function; it is a
  number when \<open>Number\<close> of the key's text is one, and the text itself otherwise. The internal
  lookup of a number gives the same in the configuration with every \<open>set\<close> taken away, and the
  internal lookup of a string gives the same in the configuration with every \<open>setList\<close> taken
  away: a number reads \<open>setList\<close> only and a string reads \<open>set\<close> only, along the whole \<open>is\<close>
  chain. The text \<open>${0}\<close> is one token whose key is the number 0, and on a button with
  \<open>set = {"0": "from set"}\<close> and \<open>setList = ["from setList"]\<close> it expands to \<open>from setList\<close>.
\<close>

theorem numeric_key_disambiguation:
  "token_key t = (case js_Number (tk_key t) of Some x \<Rightarrow> KNum x | None \<Rightarrow> KStr (tk_key t))
   \<and> tk_body (mk_token slash fn key) = token_body fn key
   \<and> tk_key (mk_token slash fn key) = key
   \<and> lookup n (map_templates without_set app) (map_option without_set button) None
        (Some (KNum x)) True seen
       = lookup n app button None (Some (KNum x)) True seen
   \<and> lookup n (map_templates without_setList app) (map_option without_setList button) None
        (Some (KStr k)) True seen
       = lookup n app button None (Some (KStr k)) True seen
   \<and> tokenize ''${0}'' = [Tok (mk_token [] None ''0'')]
   \<and> token_key (mk_token [] None ''0'') = KNum (Fin 0)
   \<and> expand (Suc (Suc (Suc m))) app (Some zero_button) ''${0}'' {} = Inr ''from setList''"
proof -
  have "tokenize ''${0}'' = [Tok (mk_token [] None ''0'')]"
    by (simp add: model_defs)
  moreover have "token_key (mk_token [] None ''0'') = KNum (Fin 0)"
    by (simp add: model_defs)
  moreover have "expand (Suc (Suc (Suc m))) app (Some zero_button) ''${0}'' {}
                   = Inr ''from setList''"
    by (simp add: model_defs plain_button_def zero_button_def)
  ultimately show ?thesis
    by (simp add: lookup_number_ignores_set lookup_string_ignores_setList token_key_def
        mk_token_def)
qed

subsection \<open>C10: transform functions\<close>



end
